theory Spec2Isabelle
  imports Main "HOL-Library.Word"
begin

section \<open>Go strings and the standard-library functions the program calls\<close>

text \<open>
  A Go string is a sequence of bytes; \<open>len\<close> counts bytes and slicing cuts bytes.
  It is modelled as a \<open>string\<close> (a list of 8-bit characters). A rune is an \<open>int\<close>.
  A run-time panic of the Go program is a value of type \<open>panic\<close>; a function that can
  panic returns \<open>panic + 'a\<close>.
\<close>

datatype panic = SliceBoundsOutOfRange | NilPointerDereference

definition byte :: "char \<Rightarrow> int" where
  "byte c = of_char c"

definition chr :: "int \<Rightarrow> char" where
  "chr n = char_of n"

subsection \<open>Decimal rendering (\<open>%d\<close>, \<open>strconv.FormatInt(_, 10)\<close>)\<close>

fun digits :: "nat \<Rightarrow> string" where
  "digits n = (if n < 10 then [char_of (48 + n)] else digits (n div 10) @ [char_of (48 + n mod 10)])"

declare digits.simps [simp del]

definition FormatInt :: "int \<Rightarrow> string" where
  "FormatInt i = (if i < 0 then CHR ''-'' # digits (nat (- i)) else digits (nat i))"

subsection \<open>UTF-8 (\<open>unicode/utf8\<close>)\<close>

definition RuneError :: int where
  "RuneError = 0xFFFD"

definition DecodeRuneInString :: "string \<Rightarrow> int \<times> nat" where
  "DecodeRuneInString s =
     (case s of
        [] \<Rightarrow> (RuneError, 0)
      | c0 # _ \<Rightarrow>
          let s0 = byte c0 in
          if s0 < 0x80 then (s0, 1)
          else if s0 < 0xC2 \<or> 0xF4 < s0 then (RuneError, 1)
          else
            let sz = (if s0 < 0xE0 then 2 else if s0 < 0xF0 then 3 else 4 :: nat);
                lo = (if s0 = 0xE0 then 0xA0 else if s0 = 0xF0 then 0x90 else 0x80);
                hi = (if s0 = 0xED then 0x9F else if s0 = 0xF4 then 0x8F else 0xBF)
            in
              if length s < sz then (RuneError, 1)
              else
                let s1 = byte (s ! 1) in
                if s1 < lo \<or> hi < s1 then (RuneError, 1)
                else if sz \<le> 2 then ((s0 mod 32) * 64 + s1 mod 64, 2)
                else
                  let s2 = byte (s ! 2) in
                  if s2 < 0x80 \<or> 0xBF < s2 then (RuneError, 1)
                  else if sz \<le> 3 then ((s0 mod 16) * 4096 + (s1 mod 64) * 64 + s2 mod 64, 3)
                  else
                    let s3 = byte (s ! 3) in
                    if s3 < 0x80 \<or> 0xBF < s3 then (RuneError, 1)
                    else ((s0 mod 8) * 262144 + (s1 mod 64) * 4096 + (s2 mod 64) * 64
                            + s3 mod 64, 4))"

definition RuneStart :: "char \<Rightarrow> bool" where
  "RuneStart c = (byte c < 0x80 \<or> 0xBF < byte c)"

definition DecodeLastRuneInString :: "string \<Rightarrow> int \<times> nat" where
  "DecodeLastRuneInString s =
     (let end = length s in
      if end = 0 then (RuneError, 0)
      else if byte (s ! (end - 1)) < 0x80 then (byte (s ! (end - 1)), 1)
      else
        let start =
              (if 2 \<le> end \<and> RuneStart (s ! (end - 2)) then end - 2
               else if 3 \<le> end \<and> RuneStart (s ! (end - 3)) then end - 3
               else if 4 \<le> end \<and> RuneStart (s ! (end - 4)) then end - 4
               else end - 5);
            (r, size) = DecodeRuneInString (drop start s)
        in if start + size \<noteq> end then (RuneError, 1) else (r, size))"

definition AppendRune :: "int \<Rightarrow> string" where
  "AppendRune r =
     (if r \<le> 0x7F then [chr r]
      else if r \<le> 0x7FF then [chr (0xC0 + r div 64), chr (0x80 + r mod 64)]
      else
        let r' = (if 0x10FFFF < r \<or> (0xD800 \<le> r \<and> r \<le> 0xDFFF) then RuneError else r) in
        if r' \<le> 0xFFFF
        then [chr (0xE0 + r' div 4096), chr (0x80 + (r' div 64) mod 64), chr (0x80 + r' mod 64)]
        else [chr (0xF0 + r' div 262144), chr (0x80 + (r' div 4096) mod 64),
              chr (0x80 + (r' div 64) mod 64), chr (0x80 + r' mod 64)])"

subsection \<open>Case mapping and white space (\<open>unicode\<close>, \<open>strings\<close>)\<close>

text \<open>
  The case tables of package \<open>unicode\<close> are not part of the program. For an ASCII rune the
  library computes the mapping itself; for any other rune it consults its tables, which
  the model takes as a parameter (\<open>upperTable\<close>, \<open>lowerTable\<close>). The local time zone of
  the process is the third parameter: \<open>zoneOffset t\<close> is the offset from UTC, in seconds,
  in force at the instant \<open>t\<close>.
\<close>

record stdlib =
  upperTable :: "int \<Rightarrow> int"
  lowerTable :: "int \<Rightarrow> int"
  zoneOffset :: "int \<Rightarrow> int"

definition unicode_ToUpper :: "stdlib \<Rightarrow> int \<Rightarrow> int" where
  "unicode_ToUpper L r =
     (if r \<le> 0x7F then (if 0x61 \<le> r \<and> r \<le> 0x7A then r - 32 else r) else upperTable L r)"

definition unicode_ToLower :: "stdlib \<Rightarrow> int \<Rightarrow> int" where
  "unicode_ToLower L r =
     (if r \<le> 0x7F then (if 0x41 \<le> r \<and> r \<le> 0x5A then r + 32 else r) else lowerTable L r)"

text \<open>\<open>strings.Map\<close>: the string is decoded rune by rune (an invalid byte decodes to
  \<open>RuneError\<close> of width 1), each rune is mapped, a negative result is dropped and any
  other is written back in UTF-8.\<close>

fun Map_runes :: "(int \<Rightarrow> int) \<Rightarrow> string \<Rightarrow> string" where
  "Map_runes mapping [] = []"
| "Map_runes mapping (c # cs) =
     (let r = mapping (fst (DecodeRuneInString (c # cs)));
          width = snd (DecodeRuneInString (c # cs))
      in (if r < 0 then [] else AppendRune r) @ Map_runes mapping (drop (width - 1) cs))"

definition isASCII :: "string \<Rightarrow> bool" where
  "isASCII s = list_all (\<lambda>c. byte c < 0x80) s"

definition ToUpper :: "stdlib \<Rightarrow> string \<Rightarrow> string" where
  "ToUpper L s =
     (if isASCII s
      then map (\<lambda>c. if 0x61 \<le> byte c \<and> byte c \<le> 0x7A then chr (byte c - 32) else c) s
      else Map_runes (unicode_ToUpper L) s)"

definition ToLower :: "stdlib \<Rightarrow> string \<Rightarrow> string" where
  "ToLower L s =
     (if isASCII s
      then map (\<lambda>c. if 0x41 \<le> byte c \<and> byte c \<le> 0x5A then chr (byte c + 32) else c) s
      else Map_runes (unicode_ToLower L) s)"

definition IsSpace :: "int \<Rightarrow> bool" where
  "IsSpace r =
     (r \<in> {0x09, 0x0A, 0x0B, 0x0C, 0x0D, 0x20, 0x85, 0xA0, 0x1680, 0x2028, 0x2029, 0x202F,
            0x205F, 0x3000}
      \<or> (0x2000 \<le> r \<and> r \<le> 0x200A))"

text \<open>\<open>strings.TrimSpace\<close> is \<open>TrimFunc(s, unicode.IsSpace)\<close> with a fast path for ASCII:
  white-space runes are cut from the left by decoding forwards, then from the right by
  decoding backwards.\<close>

fun TrimLeftSpace :: "string \<Rightarrow> string" where
  "TrimLeftSpace [] = []"
| "TrimLeftSpace (c # cs) =
     (if IsSpace (fst (DecodeRuneInString (c # cs)))
      then TrimLeftSpace (drop (snd (DecodeRuneInString (c # cs)) - 1) cs)
      else c # cs)"

function lastIndexNotSpace :: "string \<Rightarrow> nat \<Rightarrow> nat option" where
  "lastIndexNotSpace s i =
     (if i = 0 then None
      else if \<not> IsSpace (fst (DecodeLastRuneInString (take i s)))
      then Some (i - snd (DecodeLastRuneInString (take i s)))
      else lastIndexNotSpace s (i - snd (DecodeLastRuneInString (take i s))))"
  by pat_completeness auto
termination
proof (relation "measure snd")
  fix s :: string and i :: nat
  assume i: "i \<noteq> 0" and sp: "\<not> \<not> IsSpace (fst (DecodeLastRuneInString (take i s)))"
  define t where "t = take i s"
  define n where "n = length t"
  define start where "start =
     (if 2 \<le> n \<and> RuneStart (t ! (n - 2)) then n - 2
      else if 3 \<le> n \<and> RuneStart (t ! (n - 3)) then n - 3
      else if 4 \<le> n \<and> RuneStart (t ! (n - 4)) then n - 4
      else n - 5)"
  have sp': "IsSpace (fst (DecodeLastRuneInString t))"
    using sp by (simp add: t_def)
  have "t \<noteq> []"
  proof
    assume "t = []"
    with sp' show False
      by (simp add: DecodeLastRuneInString_def IsSpace_def RuneError_def)
  qed
  then have n: "0 < n" by (simp add: n_def)
  then have lt: "start < n" by (auto simp: start_def)
  obtain r size where d: "DecodeRuneInString (drop start t) = (r, size)"
    by (cases "DecodeRuneInString (drop start t)")
  have "start + size = n \<Longrightarrow> 0 < size" using lt by arith
  then have "0 < snd (DecodeLastRuneInString t)"
    using n d
    by (simp add: DecodeLastRuneInString_def Let_def n_def [symmetric] start_def [symmetric])
  with i show "((s, i - snd (DecodeLastRuneInString (take i s))), (s, i)) \<in> measure snd"
    by (simp add: t_def)
qed simp

declare lastIndexNotSpace.simps [simp del]

definition TrimRightSpace :: "string \<Rightarrow> string" where
  "TrimRightSpace s =
     (case lastIndexNotSpace s (length s) of
        None \<Rightarrow> []
      | Some i \<Rightarrow>
          if 0x80 \<le> byte (s ! i) then take (i + snd (DecodeRuneInString (drop i s))) s
          else take (i + 1) s)"

definition TrimSpace :: "string \<Rightarrow> string" where
  "TrimSpace s = TrimRightSpace (TrimLeftSpace s)"

text \<open>\<open>strings.Trim(s, cutset)\<close> for a cutset of one ASCII byte: the byte is cut from the
  right, then from the left.\<close>

definition Trim :: "string \<Rightarrow> char \<Rightarrow> string" where
  "Trim s c = dropWhile (\<lambda>x. x = c) (rev (dropWhile (\<lambda>x. x = c) (rev s)))"

text \<open>\<open>strings.ReplaceAll(s, old, new)\<close> for one-byte \<open>old\<close> and \<open>new\<close>.\<close>

definition ReplaceAll :: "string \<Rightarrow> char \<Rightarrow> char \<Rightarrow> string" where
  "ReplaceAll s old new = map (\<lambda>c. if c = old then new else c) s"

text \<open>A \<open>strings.Replacer\<close> whose old strings are all single bytes replaces byte by byte;
  the first pair naming a byte wins.\<close>

definition Replace :: "(char \<times> string) list \<Rightarrow> string \<Rightarrow> string" where
  "Replace oldnew s = concat (map (\<lambda>c. case map_of oldnew c of None \<Rightarrow> [c] | Some n \<Rightarrow> n) s)"

text \<open>\<open>strings.ContainsAny(s, chars)\<close> for ASCII \<open>chars\<close>, \<open>strings.Index(s, sep)\<close> and
  \<open>strings.Split(s, sep)\<close> for a one-byte \<open>sep\<close>.\<close>

definition ContainsAny :: "string \<Rightarrow> string \<Rightarrow> bool" where
  "ContainsAny s chars = list_ex (\<lambda>c. c \<in> set chars) s"

fun Index :: "string \<Rightarrow> char \<Rightarrow> nat option" where
  "Index [] sep = None"
| "Index (c # cs) sep = (if c = sep then Some 0 else map_option Suc (Index cs sep))"

fun Split :: "string \<Rightarrow> char \<Rightarrow> string list" where
  "Split [] sep = [[]]"
| "Split (c # cs) sep =
     (if c = sep then [] # Split cs sep
      else (case Split cs sep of p # ps \<Rightarrow> (c # p) # ps | [] \<Rightarrow> [[c]]))"

subsection \<open>Paths (\<open>path/filepath\<close>, Unix build: the separator is \<open>/\<close>)\<close>

fun Ext_scan :: "string \<Rightarrow> string \<Rightarrow> string" where
  "Ext_scan [] seen = []"
| "Ext_scan (c # cs) seen =
     (if c = CHR ''/'' then []
      else if c = CHR ''.'' then c # seen
      else Ext_scan cs (c # seen))"

text \<open>\<open>filepath.Ext\<close> walks from the last byte towards the first, up to a separator, and
  returns the suffix from the first dot it meets.\<close>

definition Ext :: "string \<Rightarrow> string" where
  "Ext path = Ext_scan (rev path) []"

subsection \<open>\<open>filepath.Clean\<close> and \<open>filepath.Join\<close>\<close>

text \<open>\<open>Clean\<close> is modelled on path elements: empty elements and \<open>.\<close> are dropped, \<open>..\<close>
  removes the element before it (or stays, at the front of a relative path), and the
  result is never empty.\<close>

fun JoinSep :: "string list \<Rightarrow> string" where
  "JoinSep [] = []"
| "JoinSep [e] = e"
| "JoinSep (e # es) = e @ CHR ''/'' # JoinSep es"

definition cleanStep :: "bool \<Rightarrow> string list \<Rightarrow> string \<Rightarrow> string list" where
  "cleanStep rooted out e =
     (if e = [] \<or> e = ''.'' then out
      else if e = ''..'' then
        (if out \<noteq> [] \<and> last out \<noteq> ''..'' then butlast out
         else if \<not> rooted then out @ [''..'']
         else out)
      else out @ [e])"

definition Clean :: "string \<Rightarrow> string" where
  "Clean path =
     (if path = [] then ''.''
      else
        let rooted = (hd path = CHR ''/'');
            out = foldl (cleanStep rooted) [] (Split path CHR ''/'');
            cleaned = (if rooted then ''/'' else []) @ JoinSep out
        in if cleaned = [] then ''.'' else cleaned)"

fun Join :: "string list \<Rightarrow> string" where
  "Join [] = []"
| "Join (e # es) = (if e \<noteq> [] then Clean (JoinSep (e # es)) else Join es)"

declare Join.simps [simp del]

subsection \<open>\<open>time.Unix(sec, 0).Format("20060102_150405")\<close>\<close>

text \<open>\<open>appendInt\<close> of package \<open>time\<close>: a decimal number padded with zeros to a width.\<close>

definition appendInt :: "int \<Rightarrow> nat \<Rightarrow> string" where
  "appendInt x width =
     (let ds = digits (nat \<bar>x\<bar>)
      in (if x < 0 then ''-'' else []) @ replicate (width - length ds) CHR ''0'' @ ds)"

text \<open>The civil date of a day number (days since 1970-01-01) in the proleptic Gregorian
  calendar: year, month, day.\<close>

definition civil :: "int \<Rightarrow> int \<times> int \<times> int" where
  "civil days =
     (let z = days + 719468;
          era = z div 146097;
          doe = z mod 146097;
          yoe = (doe - doe div 1460 + doe div 36524 - doe div 146096) div 365;
          doy = doe - (365 * yoe + yoe div 4 - yoe div 100);
          mp = (5 * doy + 2) div 153;
          d = doy - (153 * mp + 2) div 5 + 1;
          m = (if mp < 10 then mp + 3 else mp - 9);
          y = yoe + era * 400 + (if m \<le> 2 then 1 else 0)
      in (y, m, d))"

definition Format :: "stdlib \<Rightarrow> int \<Rightarrow> string" where
  "Format L sec =
     (let local = sec + zoneOffset L sec;
          (y, m, d) = civil (local div 86400);
          secs = local mod 86400
      in appendInt y 4 @ appendInt m 2 @ appendInt d 2 @ ''_''
         @ appendInt (secs div 3600) 2 @ appendInt (secs mod 3600 div 60) 2
         @ appendInt (secs mod 60) 2)"

text \<open>A library instance for evaluating the program on ASCII input, where the case tables
  are never consulted: the tables map every rune to itself and the zone is UTC.\<close>

definition asciiUTC :: stdlib where
  "asciiUTC = \<lparr>upperTable = (\<lambda>r. r), lowerTable = (\<lambda>r. r), zoneOffset = (\<lambda>t. 0)\<rparr>"

text \<open>The same with the local zone one hour east of UTC.\<close>

definition asciiPlusOne :: stdlib where
  "asciiPlusOne = asciiUTC\<lparr>zoneOffset := (\<lambda>t. 3600)\<rparr>"

section \<open>The filename sanitizer (\<open>sanitize\<close>)\<close>

definition replacer :: "(char \<times> string) list" where
  "replacer =
     [(CHR '':'', ''_''), (CHR ''*'', ''_''), (CHR ''?'', ''_''), (CHR 0x22, [CHR 0x27]),
      (CHR ''<'', ''_''), (CHR ''>'', ''_''), (CHR ''|'', ''_''),
      (CHR 0x00, [])]
     @ map (\<lambda>n. (char_of n, [])) [1 ..< 32 :: nat]
     @ [(CHR 0x7F, [])]"

definition maxLen :: nat where
  "maxLen = 220"

definition reservedNames :: "string list" where
  "reservedNames =
     [''CON'', ''PRN'', ''AUX'', ''NUL'',
      ''COM1'', ''COM2'', ''COM3'', ''COM4'', ''COM5'', ''COM6'', ''COM7'', ''COM8'', ''COM9'',
      ''LPT1'', ''LPT2'', ''LPT3'', ''LPT4'', ''LPT5'', ''LPT6'', ''LPT7'', ''LPT8'', ''LPT9'']"

text \<open>The first half of \<open>sanitize\<close>: both \<open>ReplaceAll\<close> calls, the replacer,
  \<open>TrimSpace\<close> and \<open>Trim(_, ".")\<close>.\<close>

definition replaceAndTrim :: "string \<Rightarrow> string" where
  "replaceAndTrim s =
     (let s1 = ReplaceAll s CHR ''/'' CHR ''_'';
          s2 = ReplaceAll s1 (CHR 0x5C) CHR ''_'';
          sanitized = Replace replacer s2;
          sanitized = TrimSpace sanitized
      in Trim sanitized CHR ''.'')"

text \<open>The block \<open>if len(sanitized) > maxLen { ... }\<close>. The slice \<open>base[:maxLen-len(ext)]\<close>
  has a negative bound when the extension is longer than \<open>maxLen\<close>, and Go panics.\<close>

definition limitLength :: "string \<Rightarrow> panic + string" where
  "limitLength sanitized =
     (if length sanitized > maxLen then
        let ext = Ext sanitized;
            base = take (length sanitized - length ext) sanitized
        in
          if int (length base) > int maxLen - int (length ext) then
            if int maxLen - int (length ext) < 0 then Inl SliceBoundsOutOfRange
            else
              let base = take (maxLen - length ext) base;
                  sanitized = base @ ext
              in Inr (if length sanitized > maxLen then take maxLen sanitized else sanitized)
          else
            let sanitized = base @ ext
            in Inr (if length sanitized > maxLen then take maxLen sanitized else sanitized)
      else Inr sanitized)"

text \<open>The reserved-name test: the base name of the upper-cased name, extension cut off,
  is compared with every entry of \<open>reservedNames\<close>.\<close>

definition baseName :: "string \<Rightarrow> string" where
  "baseName upperSanitized =
     (if Ext upperSanitized \<noteq> []
      then take (length upperSanitized - length (Ext upperSanitized)) upperSanitized
      else upperSanitized)"

definition isReserved :: "stdlib \<Rightarrow> string \<Rightarrow> bool" where
  "isReserved L sanitized = (baseName (ToUpper L sanitized) \<in> set reservedNames)"

text \<open>\<open>now\<close> is the reading of \<open>time.Now().UnixNano()\<close>, an \<open>int64\<close>.\<close>

definition sanitize :: "stdlib \<Rightarrow> 64 word \<Rightarrow> string \<Rightarrow> panic + string" where
  "sanitize L now s =
     (if s = [] then Inr ''empty_filename''
      else
        case limitLength (replaceAndTrim s) of
          Inl p \<Rightarrow> Inl p
        | Inr sanitized \<Rightarrow>
            if sanitized = [] \<or> sanitized = ''.'' \<or> sanitized = ''..''
            then Inr (''sanitized_file_'' @ FormatInt (sint now))
            else if isReserved L sanitized then Inr (CHR ''_'' # sanitized)
            else Inr sanitized)"

section \<open>Telegram data (package \<open>tg\<close>), as far as the program reads it\<close>

datatype DocumentAttributeClass =
    DocumentAttributeFilename string
  | DocumentAttributeOther

record Document =
  doc_ID :: int
  doc_AccessHash :: int
  doc_FileReference :: string
  doc_MimeType :: string
  doc_Attributes :: "DocumentAttributeClass list"

datatype DocumentClass = DocumentEmpty | DocumentNotEmpty Document

text \<open>The size variants carry their type tag and, where they have them, width and height.\<close>

datatype PhotoSizeClass =
    PhotoSizeEmpty string
  | PhotoSize string int int
  | PhotoCachedSize string int int
  | PhotoStrippedSize string
  | PhotoSizeProgressive string int int
  | PhotoPathSize string

record Photo =
  photo_ID :: int
  photo_AccessHash :: int
  photo_FileReference :: string
  photo_Sizes :: "PhotoSizeClass list"

datatype PhotoClass = PhotoEmpty | PhotoNotEmpty Photo

text \<open>The document of a \<open>MessageMediaDocument\<close> and the photo of a \<open>MessageMediaPhoto\<close> are
  optional fields of interface type: \<open>None\<close> is the nil interface. Every media kind other
  than these two is \<open>MessageMediaOther\<close>.\<close>

datatype MessageMediaClass =
    MessageMediaDocument "DocumentClass option"
  | MessageMediaPhoto "PhotoClass option"
  | MessageMediaOther

datatype PeerClass = PeerUser int | PeerChat int | PeerChannel int

record Message =
  msg_ID :: int
  msg_Date :: int
  msg_FromID :: "PeerClass option"
  msg_PeerID :: "PeerClass option"
  msg_Media :: "MessageMediaClass option"

datatype MessageClass = MessageEmpty | MessageNotEmpty Message | MessageService int

datatype ChannelAdminLogEventActionClass =
    ChannelAdminLogEventActionDeleteMessage MessageClass
  | ChannelAdminLogEventActionOther

record ChannelAdminLogEvent =
  ev_ID :: int
  ev_Action :: ChannelAdminLogEventActionClass

text \<open>A file location: ID, access hash, file reference, thumb size.\<close>

datatype InputFileLocationClass =
    InputDocumentFileLocation int int string string
  | InputPhotoFileLocation int int string string

section \<open>The media locator (\<open>inputLocation\<close>, \<open>filenameFromDocument\<close>)\<close>

text \<open>The errors the program returns. \<open>ErrDocument\<close> and \<open>ErrPhoto\<close> carry the text
  \<open>details\<close> of the message.\<close>

datatype error =
    errUnsupportedMedia
  | ErrDocument string
  | ErrPhoto string
  | ErrNoSuitablePhotoSizes
  | ErrCreateBaseDirectory
  | ErrCreateSubdirectory
  | ErrDownloadFailed

text \<open>The program's own \<open>max\<close>.\<close>

definition max_int :: "int \<Rightarrow> int \<Rightarrow> int" where
  "max_int a b = (if a > b then a else b)"

text \<open>The loop over \<open>doc.Attributes\<close>: the first filename attribute with a non-empty
  name ends it.\<close>

fun filenameAttribute :: "DocumentAttributeClass list \<Rightarrow> string option" where
  "filenameAttribute [] = None"
| "filenameAttribute (a # as) =
     (case a of
        DocumentAttributeFilename FileName \<Rightarrow>
          if FileName \<noteq> [] then Some FileName else filenameAttribute as
      | DocumentAttributeOther \<Rightarrow> filenameAttribute as)"

text \<open>The extension taken from the MIME type, \<open>bin\<close> by default.\<close>

definition mimeExtension :: "stdlib \<Rightarrow> string \<Rightarrow> string" where
  "mimeExtension L MimeType =
     (let mimeParts = Split MimeType CHR ''/'' in
      if length mimeParts = 2 \<and> mimeParts ! 1 \<noteq> [] then
        let cleanedPart = ToLower L (mimeParts ! 1);
            cleanedPart = (case Index cleanedPart CHR '';'' of
                             Some idx \<Rightarrow> take idx cleanedPart
                           | None \<Rightarrow> cleanedPart);
            cleanedPart = TrimSpace cleanedPart
        in
          if length cleanedPart > 0 \<and> length cleanedPart < 10
             \<and> \<not> ContainsAny cleanedPart
                   [CHR ''/'', CHR 0x5C, CHR '':'', CHR ''*'', CHR ''?'', CHR 0x22, CHR ''<'',
                    CHR ''>'', CHR ''|'', CHR '' '']
          then cleanedPart
          else ''bin''
      else ''bin'')"

definition filenameFromDocument :: "stdlib \<Rightarrow> 64 word \<Rightarrow> Document \<Rightarrow> panic + string" where
  "filenameFromDocument L now doc =
     (case filenameAttribute (doc_Attributes doc) of
        Some FileName \<Rightarrow> sanitize L now FileName
      | None \<Rightarrow>
          let ext = mimeExtension L (doc_MimeType doc);
              name = FormatInt (doc_ID doc) @ ''.'' @ ext
          in sanitize L now name)"

text \<open>The loop over \<open>photo.Sizes\<close>. \<open>biggest\<close> is the representative \<open>*tg.PhotoSize\<close>
  (type, width, height), \<open>None\<close> for nil. The last two equations are the \<open>default\<close>
  branch of the type switch.\<close>

fun largestPhotoSize ::
  "PhotoSizeClass list \<Rightarrow> (string \<times> int \<times> int) option \<Rightarrow> string \<Rightarrow> int
     \<Rightarrow> (string \<times> int \<times> int) option \<times> string \<times> int" where
  "largestPhotoSize [] biggest biggestType largestDim = (biggest, biggestType, largestDim)"
| "largestPhotoSize (PhotoSize Type W H # sizes) biggest biggestType largestDim =
     (let currentDim = max_int W H in
      if currentDim > largestDim
      then largestPhotoSize sizes (Some (Type, W, H)) Type currentDim
      else largestPhotoSize sizes biggest biggestType largestDim)"
| "largestPhotoSize (PhotoSizeProgressive Type W H # sizes) biggest biggestType largestDim =
     (let currentDim = max_int W H in
      if currentDim > largestDim
      then largestPhotoSize sizes (Some (Type, W, H)) Type currentDim
      else largestPhotoSize sizes biggest biggestType largestDim)"
| "largestPhotoSize (PhotoCachedSize Type W H # sizes) biggest biggestType largestDim =
     largestPhotoSize sizes biggest biggestType largestDim"
| "largestPhotoSize (PhotoStrippedSize Type # sizes) biggest biggestType largestDim =
     largestPhotoSize sizes biggest biggestType largestDim"
| "largestPhotoSize (PhotoSizeEmpty Type # sizes) biggest biggestType largestDim =
     largestPhotoSize sizes biggest biggestType largestDim"
| "largestPhotoSize (PhotoPathSize Type # sizes) biggest biggestType largestDim =
     largestPhotoSize sizes biggest biggestType largestDim"

text \<open>\<open>inputLocation\<close>. Calling \<open>AsNotEmpty\<close> on a nil interface is a nil dereference. The
  log lines of the locator are diagnostics and are not modelled.\<close>

definition inputLocation ::
  "stdlib \<Rightarrow> 64 word \<Rightarrow> Message \<Rightarrow> panic + (error + InputFileLocationClass \<times> string)" where
  "inputLocation L now msg =
     (case msg_Media msg of
        Some (MessageMediaDocument m) \<Rightarrow>
          (case m of
             None \<Rightarrow> Inl NilPointerDereference
           | Some DocumentEmpty \<Rightarrow> Inr (Inl (ErrDocument ''tg.DocumentEmpty''))
           | Some (DocumentNotEmpty doc) \<Rightarrow>
               (case filenameFromDocument L now doc of
                  Inl p \<Rightarrow> Inl p
                | Inr name \<Rightarrow>
                    Inr (Inr (InputDocumentFileLocation (doc_ID doc) (doc_AccessHash doc)
                               (doc_FileReference doc) [], name))))
      | Some (MessageMediaPhoto m) \<Rightarrow>
          (case m of
             None \<Rightarrow> Inl NilPointerDereference
           | Some PhotoEmpty \<Rightarrow> Inr (Inl (ErrPhoto ''tg.PhotoEmpty''))
           | Some (PhotoNotEmpty photo) \<Rightarrow>
               (case largestPhotoSize (photo_Sizes photo) None [] 0 of
                  (biggest, biggestType, largestDim) \<Rightarrow>
                    if biggest = None \<or> biggestType = [] then Inr (Inl ErrNoSuitablePhotoSizes)
                    else
                      let filename = FormatInt (photo_ID photo) @ ''_'' @ biggestType @ ''.jpg''
                      in Inr (Inr (InputPhotoFileLocation (photo_ID photo)
                                     (photo_AccessHash photo) (photo_FileReference photo)
                                     biggestType, filename))))
      | _ \<Rightarrow> Inr (Inl errUnsupportedMedia))"

section \<open>The world outside the program: file system, log, fetch primitive, clock\<close>

datatype node = Dir | File string

datatype level = Debug | Info | Warn

text \<open>\<open>files\<close> maps a path to what is there; \<open>log\<close> is the sequence of log calls (level and
  message); \<open>fetched\<close> records every invocation of the fetch primitive, with its location and
  destination.\<close>

record world =
  files :: "string \<rightharpoonup> node"
  log :: "(level \<times> string) list"
  fetched :: "(InputFileLocationClass \<times> string) list"

text \<open>What \<open>dl.Download(...).ToPath\<close> does with the destination: it writes the whole file,
  or fails after writing some of it (\<open>Some\<close>) or before creating it (\<open>None\<close>).\<close>

datatype fetch_result = Fetched string | FetchFailed "string option"

text \<open>The answers of the outside world while one event is processed: the clock reading and
  the behaviour of the fetch primitive.\<close>

record moment =
  UnixNano :: "64 word"
  fetch :: "InputFileLocationClass \<Rightarrow> fetch_result"

definition logMsg :: "level \<Rightarrow> string \<Rightarrow> world \<Rightarrow> world" where
  "logMsg lvl text w = w\<lparr>log := log w @ [(lvl, text)]\<rparr>"

text \<open>The parent of a path, for \<open>os.MkdirAll\<close>: trailing separators and the last element
  are cut off. The parent is shorter than the path; \<open>MkdirAll\<close> tests it, which makes its
  recursion well-founded.\<close>

definition parentDir :: "string \<Rightarrow> string" where
  "parentDir path =
     rev (dropWhile (\<lambda>c. c = CHR ''/'')
            (dropWhile (\<lambda>c. c \<noteq> CHR ''/'') (dropWhile (\<lambda>c. c = CHR ''/'') (rev path))))"

text \<open>\<open>os.MkdirAll\<close>: a directory that exists is left alone, a file in its place is an
  error (\<open>None\<close>), otherwise the parent is made first and then the directory.\<close>

function MkdirAll :: "(string \<rightharpoonup> node) \<Rightarrow> string \<Rightarrow> (string \<rightharpoonup> node) option" where
  "MkdirAll fs path =
     (case fs path of
        Some Dir \<Rightarrow> Some fs
      | Some (File content) \<Rightarrow> None
      | None \<Rightarrow>
          if path = [] then None
          else if parentDir path \<noteq> [] \<and> length (parentDir path) < length path then
            (case MkdirAll fs (parentDir path) of
               None \<Rightarrow> None
             | Some fs' \<Rightarrow> Some (fs'(path \<mapsto> Dir)))
          else Some (fs(path \<mapsto> Dir)))"
  by pat_completeness auto
termination
  by (relation "measure (\<lambda>(fs, path). length path)") auto

declare MkdirAll.simps [simp del]

section \<open>Saving one message's media (\<open>saveMedia\<close>)\<close>

definition mediaDir :: string where
  "mediaDir = ''media_backup''"

text \<open>The subdirectory name chosen from \<open>msg.FromID\<close> and \<open>msg.PeerID\<close>; the flag says that
  the fallback was taken, which the program logs.\<close>

definition subDirName :: "Message \<Rightarrow> string \<times> bool" where
  "subDirName msg =
     (case msg_FromID msg of
        Some (PeerUser UserID) \<Rightarrow> (FormatInt UserID, False)
      | _ \<Rightarrow>
          (case msg_PeerID msg of
             Some (PeerUser UserID) \<Rightarrow> (FormatInt UserID, False)
           | Some (PeerChat ChatID) \<Rightarrow> (''chat_'' @ FormatInt ChatID, False)
           | Some (PeerChannel ChannelID) \<Rightarrow> (''channel_'' @ FormatInt ChannelID, False)
           | None \<Rightarrow> (''unknown_sender'', True)))"

text \<open>The name the file is saved under: the candidate, or the fallback built from the
  message ID and the clock when the candidate is empty.\<close>

definition effectiveFilename :: "64 word \<Rightarrow> Message \<Rightarrow> string \<Rightarrow> string" where
  "effectiveFilename now msg filename =
     (if filename = [] then FormatInt (msg_ID msg) @ ''_'' @ FormatInt (sint now) @ ''.dat''
      else filename)"

text \<open>The destination path of \<open>saveMedia\<close> for a message and a candidate filename.\<close>

definition destinationPath :: "stdlib \<Rightarrow> 64 word \<Rightarrow> Message \<Rightarrow> string \<Rightarrow> string" where
  "destinationPath L now msg filename =
     (let filename = effectiveFilename now msg filename;
          timestamp = Format L (msg_Date msg);
          baseFilename = timestamp @ ''_'' @ filename;
          subDir = Join [mediaDir, fst (subDirName msg)]
      in Join [subDir, baseFilename])"

text \<open>\<open>saveMedia\<close> returns the error (\<open>None\<close> for nil) and the world it leaves behind.
  In this file system \<open>os.Stat\<close> succeeds exactly when something is at the path, and fails
  with "not exist" otherwise (after any other error of \<open>os.Stat\<close> the program logs a warning
  and goes on to the download as well); \<open>os.Remove\<close> after a failed download takes the path
  away.\<close>

definition saveMedia ::
  "stdlib \<Rightarrow> moment \<Rightarrow> world \<Rightarrow> Message \<Rightarrow> panic + (error option \<times> world)" where
  "saveMedia L m w msg =
     (case inputLocation L (UnixNano m) msg of
        Inl p \<Rightarrow> Inl p
      | Inr (Inl err) \<Rightarrow>
          if err = errUnsupportedMedia
          then Inr (None, logMsg Debug ''Skipping unsupported media type'' w)
          else Inr (Some err, logMsg Warn ''Could not get input location'' w)
      | Inr (Inr (loc, filename)) \<Rightarrow>
          (case MkdirAll (files w) mediaDir of
             None \<Rightarrow> Inr (Some ErrCreateBaseDirectory, w)
           | Some fs1 \<Rightarrow>
               let w = w\<lparr>files := fs1\<rparr>;
                   w = (if filename = [] then logMsg Warn ''Generated fallback filename'' w
                        else w);
                   filename = effectiveFilename (UnixNano m) msg filename;
                   baseFilename = Format L (msg_Date msg) @ ''_'' @ filename;
                   w = (if snd (subDirName msg)
                        then logMsg Warn
                               ''Could not determine sender/peer ID for subdirectory'' w
                        else w);
                   subDir = Join [mediaDir, fst (subDirName msg)]
               in
                 case MkdirAll (files w) subDir of
                   None \<Rightarrow> Inr (Some ErrCreateSubdirectory, w)
                 | Some fs2 \<Rightarrow>
                     let w = w\<lparr>files := fs2\<rparr>;
                         destPath = Join [subDir, baseFilename]
                     in
                       if files w destPath \<noteq> None
                       then Inr (None, logMsg Info ''File already exists, skipping download.'' w)
                       else
                         let w = logMsg Info ''Attempting to download media'' w;
                             w = w\<lparr>fetched := fetched w @ [(loc, destPath)]\<rparr>
                         in
                           case fetch m loc of
                             Fetched content \<Rightarrow>
                               Inr (None,
                                    logMsg Info ''Download successful''
                                      (w\<lparr>files := (files w)(destPath \<mapsto> File content)\<rparr>))
                           | FetchFailed written \<Rightarrow>
                               let w = (case written of
                                          Some content \<Rightarrow>
                                            w\<lparr>files := (files w)(destPath \<mapsto> File content)\<rparr>
                                        | None \<Rightarrow> w);
                                   w = w\<lparr>files := (files w)(destPath := None)\<rparr>
                               in Inr (Some ErrDownloadFailed, w)))"

section \<open>The scan of one page of the admin log (the inner loop of \<open>main\<close>)\<close>

record scan =
  maxID :: int
  total :: int
  foundDeletedMedia :: bool
  world :: world

definition processEvent ::
  "stdlib \<Rightarrow> moment \<Rightarrow> scan \<Rightarrow> ChannelAdminLogEvent \<Rightarrow> panic + scan" where
  "processEvent L m st ev =
     (let st = st\<lparr>maxID := ev_ID ev\<rparr> in
      case ev_Action ev of
        ChannelAdminLogEventActionDeleteMessage (MessageNotEmpty msg) \<Rightarrow>
          if msg_Media msg \<noteq> None then
            let st = st\<lparr>foundDeletedMedia := True\<rparr>;
                w = logMsg Info ''Found deleted message with media'' (world st)
            in
              case saveMedia L m w msg of
                Inl p \<Rightarrow> Inl p
              | Inr (Some err, w) \<Rightarrow>
                  Inr (st\<lparr>world := logMsg Warn ''Failed to save media'' w\<rparr>)
              | Inr (None, w) \<Rightarrow>
                  Inr (st\<lparr>total := total st + 1,
                          world := logMsg Info
                                     ''Successfully processed/saved media for message'' w\<rparr>)
          else Inr st
      | ChannelAdminLogEventActionDeleteMessage (MessageService ID) \<Rightarrow>
          Inr (st\<lparr>world := logMsg Debug ''Found deleted service message'' (world st)\<rparr>)
      | ChannelAdminLogEventActionDeleteMessage MessageEmpty \<Rightarrow> Inr st
      | ChannelAdminLogEventActionOther \<Rightarrow>
          Inr (st\<lparr>world := logMsg Debug ''Skipping non-delete admin log event'' (world st)\<rparr>))"

text \<open>The loop \<open>for _, ev := range res.Events\<close>. \<open>M\<close> is the sequence of moments, one for
  each event in turn; a panic ends the program.\<close>

fun processEvents ::
  "stdlib \<Rightarrow> (nat \<Rightarrow> moment) \<Rightarrow> scan \<Rightarrow> ChannelAdminLogEvent list \<Rightarrow> panic + scan" where
  "processEvents L M st [] = Inr st"
| "processEvents L M st (ev # evs) =
     (case processEvent L (M 0) st ev of
        Inl p \<Rightarrow> Inl p
      | Inr st' \<Rightarrow> processEvents L (\<lambda>i. M (Suc i)) st' evs)"

text \<open>One page that is not empty, as the body of the outer loop handles it:
  \<open>foundDeletedMedia\<close> starts false, the loop over the events runs, and a debug line
  follows if no deleted message with media was found. (The outer loop requests the next
  page with \<open>MaxID\<close> set to \<open>maxID\<close> and stops at the first empty page.)\<close>

definition processPage ::
  "stdlib \<Rightarrow> (nat \<Rightarrow> moment) \<Rightarrow> scan \<Rightarrow> ChannelAdminLogEvent list \<Rightarrow> panic + scan" where
  "processPage L M st Events =
     (case processEvents L M (st\<lparr>foundDeletedMedia := False\<rparr>) Events of
        Inl p \<Rightarrow> Inl p
      | Inr st \<Rightarrow>
          if \<not> foundDeletedMedia st \<and> length Events > 0
          then Inr (st\<lparr>world :=
                       logMsg Debug
                         ''Processed admin log batch, but no deleted messages *with media* were found in this batch.''
                         (world st)\<rparr>)
          else Inr st)"

section \<open>Predicates and reference definitions used to state the properties\<close>

text \<open>The bytes the sanitizer never lets through: the path separators, the characters it
  replaces, and the ASCII control characters.\<close>

definition unsafeChar :: "char \<Rightarrow> bool" where
  "unsafeChar c \<longleftrightarrow>
     c \<in> {CHR ''/'', CHR 0x5C, CHR '':'', CHR ''*'', CHR ''?'', CHR 0x22, CHR ''<'', CHR ''>'',
          CHR ''|'', CHR 0x7F} \<or> byte c < 0x20"

subsection \<open>The photo size selection, as the specification words it\<close>

text \<open>The resolvable variants with their dimension \<open>dim = max(width, height)\<close>, in the order
  of the photo; cached, stripped and all other variants are left out.\<close>

definition resolvable :: "PhotoSizeClass \<Rightarrow> (string \<times> int) option" where
  "resolvable s =
     (case s of
        PhotoSize Type W H \<Rightarrow> Some (Type, max W H)
      | PhotoSizeProgressive Type W H \<Rightarrow> Some (Type, max W H)
      | _ \<Rightarrow> None)"

definition candidates :: "PhotoSizeClass list \<Rightarrow> (string \<times> int) list" where
  "candidates sizes = List.map_filter resolvable sizes"

text \<open>The first entry whose dimension no entry exceeds: the largest, first-seen on ties.\<close>

definition firstLargest :: "(string \<times> int) list \<Rightarrow> (string \<times> int) option" where
  "firstLargest cs = find (\<lambda>c. \<forall>c'\<in>set cs. snd c' \<le> snd c) cs"

definition photoLocation :: "Photo \<Rightarrow> string \<Rightarrow> error + InputFileLocationClass \<times> string" where
  "photoLocation photo tag =
     Inr (InputPhotoFileLocation (photo_ID photo) (photo_AccessHash photo)
            (photo_FileReference photo) tag,
          FormatInt (photo_ID photo) @ ''_'' @ tag @ ''.jpg'')"

text \<open>The selection as the specification states it: the first largest resolvable size, an
  error when there is none.\<close>

definition claimedPhotoSelection :: "Photo \<Rightarrow> error + InputFileLocationClass \<times> string" where
  "claimedPhotoSelection photo =
     (case firstLargest (candidates (photo_Sizes photo)) of
        Some (tag, dim) \<Rightarrow> photoLocation photo tag
      | None \<Rightarrow> Inl ErrNoSuitablePhotoSizes)"

text \<open>The selection as the code makes it: the first largest resolvable size counts only if
  its dimension is positive and its tag is not empty.\<close>

definition photoSelection :: "Photo \<Rightarrow> error + InputFileLocationClass \<times> string" where
  "photoSelection photo =
     (case firstLargest (candidates (photo_Sizes photo)) of
        Some (tag, dim) \<Rightarrow>
          if 0 < dim \<and> tag \<noteq> [] then photoLocation photo tag
          else Inl ErrNoSuitablePhotoSizes
      | None \<Rightarrow> Inl ErrNoSuitablePhotoSizes)"

text \<open>The invariant of the loop over the sizes: started with \<open>(b, bt, ld)\<close> on the
  candidates \<open>cs\<close>, the loop ends in \<open>r\<close>. Either nothing was selected, or the selected
  entry is in \<open>cs\<close> with only smaller entries before it; no entry exceeds the result.\<close>

definition selected ::
  "(string \<times> int) list \<Rightarrow> (string \<times> int \<times> int) option \<Rightarrow> string \<Rightarrow> int
     \<Rightarrow> (string \<times> int \<times> int) option \<times> string \<times> int \<Rightarrow> bool" where
  "selected cs b bt ld r \<longleftrightarrow>
     ld \<le> snd (snd r) \<and> (\<forall>c\<in>set cs. snd c \<le> snd (snd r)) \<and>
     (r = (b, bt, ld) \<or>
      (fst r \<noteq> None \<and> ld < snd (snd r) \<and>
       (\<exists>pre post. cs = pre @ snd r # post \<and> (\<forall>c\<in>set pre. snd c < snd (snd r)))))"

subsection \<open>The document filename, as the specification words it\<close>

definition pathHostile :: string where
  "pathHostile =
     [CHR ''/'', CHR 0x5C, CHR '':'', CHR ''*'', CHR ''?'', CHR 0x22, CHR ''<'', CHR ''>'',
      CHR ''|'', CHR '' '']"

text \<open>The explicit filename: the first filename attribute whose name is not empty.\<close>

definition isNamed :: "DocumentAttributeClass \<Rightarrow> bool" where
  "isNamed a = (case a of DocumentAttributeFilename FileName \<Rightarrow> FileName \<noteq> [] | _ \<Rightarrow> False)"

definition explicitName :: "DocumentAttributeClass list \<Rightarrow> string option" where
  "explicitName attrs =
     (case find isNamed attrs of
        Some (DocumentAttributeFilename FileName) \<Rightarrow> Some FileName
      | _ \<Rightarrow> None)"

text \<open>The extension as the specification states it: the subtype (what follows the first
  slash), lower-cased, cut at the first semicolon, taken if it has 1 to 9 bytes and no
  path-hostile character, \<open>bin\<close> otherwise. And the filename as the specification states
  it: the explicit name sanitized, otherwise the document ID, a dot and that extension.\<close>

definition claimedExtension :: "stdlib \<Rightarrow> string \<Rightarrow> string" where
  "claimedExtension L MimeType =
     (if CHR ''/'' \<in> set MimeType then
        let subtype = takeWhile (\<lambda>c. c \<noteq> CHR '';'')
                        (ToLower L (tl (dropWhile (\<lambda>c. c \<noteq> CHR ''/'') MimeType)))
        in if 1 \<le> length subtype \<and> length subtype \<le> 9 \<and> \<not> ContainsAny subtype pathHostile
           then subtype else ''bin''
      else ''bin'')"

definition claimedFilename :: "stdlib \<Rightarrow> 64 word \<Rightarrow> Document \<Rightarrow> panic + string" where
  "claimedFilename L now doc =
     (case explicitName (doc_Attributes doc) of
        Some FileName \<Rightarrow> sanitize L now FileName
      | None \<Rightarrow> Inr (FormatInt (doc_ID doc) @ ''.'' @ claimedExtension L (doc_MimeType doc)))"

text \<open>The extension and the filename as the code makes them: the MIME type must have exactly
  one slash, the subtype is also trimmed of white space, and the synthesized name is
  sanitized as well.\<close>

definition subtypeExtension :: "stdlib \<Rightarrow> string \<Rightarrow> string" where
  "subtypeExtension L MimeType =
     (if count_list MimeType CHR ''/'' = 1 then
        let subtype = TrimSpace (takeWhile (\<lambda>c. c \<noteq> CHR '';'')
                        (ToLower L (tl (dropWhile (\<lambda>c. c \<noteq> CHR ''/'') MimeType))))
        in if 1 \<le> length subtype \<and> length subtype \<le> 9 \<and> \<not> ContainsAny subtype pathHostile
           then subtype else ''bin''
      else ''bin'')"

definition resolvedFilename :: "stdlib \<Rightarrow> 64 word \<Rightarrow> Document \<Rightarrow> panic + string" where
  "resolvedFilename L now doc =
     (case explicitName (doc_Attributes doc) of
        Some FileName \<Rightarrow> sanitize L now FileName
      | None \<Rightarrow>
          sanitize L now (FormatInt (doc_ID doc) @ ''.'' @ subtypeExtension L (doc_MimeType doc)))"

text \<open>An event makes the locator panic: it deletes a message with media on which
  \<open>inputLocation\<close> panics.\<close>

definition locatorPanics :: "stdlib \<Rightarrow> moment \<Rightarrow> ChannelAdminLogEvent \<Rightarrow> bool" where
  "locatorPanics L m ev =
     (case ev_Action ev of
        ChannelAdminLogEventActionDeleteMessage (MessageNotEmpty msg) \<Rightarrow>
          msg_Media msg \<noteq> None \<and> isl (inputLocation L (UnixNano m) msg)
      | _ \<Rightarrow> False)"

subsection \<open>Sample data\<close>

text \<open>A message of user 42, sent 2023-10-27 10:30:15 UTC, whose document carries the given
  attributes; the same message with a photo of the given sizes instead; the event that
  deletes a message; an empty world; a moment whose fetch succeeds and
  one whose fetch fails after writing two bytes.\<close>

definition sampleDocument :: "DocumentAttributeClass list \<Rightarrow> Document" where
  "sampleDocument attrs =
     \<lparr>doc_ID = 5, doc_AccessHash = 1, doc_FileReference = ''r'',
      doc_MimeType = ''text/plain; charset=utf-8'', doc_Attributes = attrs\<rparr>"

definition sampleMessage :: "DocumentAttributeClass list \<Rightarrow> Message" where
  "sampleMessage attrs =
     \<lparr>msg_ID = 7, msg_Date = 1698402615, msg_FromID = Some (PeerUser 42),
      msg_PeerID = Some (PeerChannel 9),
      msg_Media = Some (MessageMediaDocument (Some (DocumentNotEmpty (sampleDocument attrs))))\<rparr>"

definition photoMessage :: "PhotoSizeClass list \<Rightarrow> Message" where
  "photoMessage sizes =
     \<lparr>msg_ID = 7, msg_Date = 1698402615, msg_FromID = Some (PeerUser 42),
      msg_PeerID = Some (PeerChannel 9),
      msg_Media = Some (MessageMediaPhoto (Some (PhotoNotEmpty
        \<lparr>photo_ID = 6, photo_AccessHash = 2, photo_FileReference = ''p'',
         photo_Sizes = sizes\<rparr>)))\<rparr>"

definition deletion :: "int \<Rightarrow> Message \<Rightarrow> ChannelAdminLogEvent" where
  "deletion ID msg =
     \<lparr>ev_ID = ID, ev_Action = ChannelAdminLogEventActionDeleteMessage (MessageNotEmpty msg)\<rparr>"

definition emptyWorld :: world where
  "emptyWorld = \<lparr>files = Map.empty, log = [], fetched = []\<rparr>"

definition freshScan :: scan where
  "freshScan = \<lparr>maxID = 0, total = 0, foundDeletedMedia = False, world = emptyWorld\<rparr>"

definition fetchWorks :: moment where
  "fetchWorks = \<lparr>UnixNano = 1700000000000000000, fetch = (\<lambda>loc. Fetched ''data'')\<rparr>"

definition fetchBreaks :: moment where
  "fetchBreaks = \<lparr>UnixNano = 1700000000000000000, fetch = (\<lambda>loc. FetchFailed (Some ''da''))\<rparr>"

text \<open>A page of three events: the deletion of the sample message, an event that is not a
  deletion, and the deletion of a service message; and a world in which every fetch
  fails.\<close>

definition samplePage :: "ChannelAdminLogEvent list" where
  "samplePage =
     [deletion 10 (sampleMessage []),
      \<lparr>ev_ID = 9, ev_Action = ChannelAdminLogEventActionOther\<rparr>,
      \<lparr>ev_ID = 8, ev_Action = ChannelAdminLogEventActionDeleteMessage (MessageService 3)\<rparr>]"

definition alwaysBreaks :: "nat \<Rightarrow> moment" where
  "alwaysBreaks i = fetchBreaks"

text \<open>A world in which the sample message's document has been saved already.\<close>

definition savedWorld :: world where
  "savedWorld =
     \<lparr>files = [''media_backup'' \<mapsto> Dir, ''media_backup/42'' \<mapsto> Dir,
               ''media_backup/42/20231027_103015_5.plain'' \<mapsto> File ''data''],
      log = [], fetched = []\<rparr>"

section \<open>Properties of the library functions\<close>

lemma set_ReplaceAll: "set (ReplaceAll s old new) \<subseteq> (set s - {old}) \<union> {new}"
  by (auto simp: ReplaceAll_def)

lemma TrimLeftSpace_drop: "\<exists>k. TrimLeftSpace s = drop k s"
proof (induction s rule: TrimLeftSpace.induct)
  case 1
  show ?case by simp
next
  case (2 c cs)
  show ?case
  proof (cases "IsSpace (fst (DecodeRuneInString (c # cs)))")
    case True
    with 2 obtain k where "TrimLeftSpace (c # cs) = drop k (drop (snd (DecodeRuneInString (c # cs)) - 1) cs)"
      by auto
    then have "TrimLeftSpace (c # cs) = drop (Suc (k + (snd (DecodeRuneInString (c # cs)) - 1))) (c # cs)"
      by (simp add: add.commute)
    then show ?thesis by blast
  next
    case False
    then have "TrimLeftSpace (c # cs) = drop 0 (c # cs)" by simp
    then show ?thesis by blast
  qed
qed

lemma TrimRightSpace_take: "\<exists>k. TrimRightSpace s = take k s"
proof (cases "lastIndexNotSpace s (length s)")
  case None
  then have "TrimRightSpace s = take 0 s" by (simp add: TrimRightSpace_def)
  then show ?thesis by blast
next
  case (Some i)
  then show ?thesis by (auto simp: TrimRightSpace_def)
qed

lemma TrimSpace_sub: "\<exists>j k. TrimSpace s = take j (drop k s)"
proof -
  obtain k where k: "TrimLeftSpace s = drop k s" using TrimLeftSpace_drop by blast
  obtain j where "TrimRightSpace (TrimLeftSpace s) = take j (TrimLeftSpace s)"
    using TrimRightSpace_take by blast
  with k have "TrimSpace s = take j (drop k s)" by (simp add: TrimSpace_def)
  then show ?thesis by blast
qed

lemma set_TrimSpace: "set (TrimSpace s) \<subseteq> set s"
proof -
  obtain j k where "TrimSpace s = take j (drop k s)" using TrimSpace_sub by blast
  then show ?thesis
    by (metis set_take_subset set_drop_subset subset_trans)
qed

lemma set_Trim: "set (Trim s c) \<subseteq> set s"
  unfolding Trim_def
  by (metis set_dropWhileD set_rev subsetI)

lemma Ext_scan_shape:
  "Ext_scan xs seen = [] \<or> (\<exists>k. k < length xs \<and> Ext_scan xs seen = rev (take (Suc k) xs) @ seen)"
proof (induction xs seen rule: Ext_scan.induct)
  case (1 seen)
  show ?case by simp
next
  case (2 c cs seen)
  show ?case
  proof (cases "c = CHR ''/''")
    case True
    then show ?thesis by simp
  next
    case sep: False
    show ?thesis
    proof (cases "c = CHR ''.''")
      case True
      with sep have "Ext_scan (c # cs) seen = rev (take (Suc 0) (c # cs)) @ seen" by simp
      then show ?thesis by blast
    next
      case False
      with sep 2 have "Ext_scan cs (c # seen) = [] \<or>
          (\<exists>k. k < length cs \<and> Ext_scan cs (c # seen) = rev (take (Suc k) cs) @ c # seen)"
        by simp
      then show ?thesis
      proof
        assume "Ext_scan cs (c # seen) = []"
        with sep False show ?thesis by simp
      next
        assume "\<exists>k. k < length cs \<and> Ext_scan cs (c # seen) = rev (take (Suc k) cs) @ c # seen"
        then obtain k where k: "k < length cs"
          and e: "Ext_scan cs (c # seen) = rev (take (Suc k) cs) @ c # seen" by blast
        from sep False e have "Ext_scan (c # cs) seen = rev (take (Suc (Suc k)) (c # cs)) @ seen"
          by simp
        with k show ?thesis by auto
      qed
    qed
  qed
qed

lemma Ext_suffix: "\<exists>k. k \<le> length path \<and> Ext path = drop k path"
proof -
  consider "Ext path = []"
    | k where "k < length path" "Ext path = rev (take (Suc k) (rev path))"
    using Ext_scan_shape [of "rev path" "[]"] by (auto simp: Ext_def)
  then show ?thesis
  proof cases
    case 1
    then have "Ext path = drop (length path) path" by simp
    then show ?thesis by blast
  next
    case 2
    then have "Ext path = drop (length path - Suc k) path"
      by (simp add: take_rev)
    then show ?thesis by (metis diff_le_self)
  qed
qed

lemma length_Ext: "length (Ext path) \<le> length path"
  using Ext_suffix [of path] by auto

lemma set_Ext: "set (Ext path) \<subseteq> set path"
  using Ext_suffix [of path] by (metis set_drop_subset)

lemma take_append_Ext: "take (length path - length (Ext path)) path @ Ext path = path"
proof -
  obtain k where k: "k \<le> length path" "Ext path = drop k path"
    using Ext_suffix by blast
  then have "length path - length (Ext path) = k" by simp
  with k show ?thesis by simp
qed

section \<open>Properties of the sanitizer's steps\<close>

lemma map_of_replacer_None:
  "map_of replacer c = None \<longleftrightarrow>
     c \<notin> {CHR '':'', CHR ''*'', CHR ''?'', CHR 0x22, CHR ''<'', CHR ''>'', CHR ''|'', CHR 0x7F}
     \<and> 0x20 \<le> byte c"
proof -
  have ctl: "c \<in> char_of ` {1 ..< 32 :: nat} \<longleftrightarrow> 1 \<le> (of_char c :: nat) \<and> (of_char c :: nat) < 32"
  proof
    assume "c \<in> char_of ` {1 ..< 32 :: nat}"
    then obtain n :: nat where "1 \<le> n" "n < 32" "c = char_of n" by auto
    then show "1 \<le> (of_char c :: nat) \<and> (of_char c :: nat) < 32" by simp
  next
    assume "1 \<le> (of_char c :: nat) \<and> (of_char c :: nat) < 32"
    then have "(of_char c :: nat) \<in> {1 ..< 32}" by simp
    then have "char_of (of_char c :: nat) \<in> char_of ` {1 ..< 32 :: nat}" by (rule imageI)
    then show "c \<in> char_of ` {1 ..< 32 :: nat}" by simp
  qed
  have zero: "c = CHR 0x00 \<longleftrightarrow> (of_char c :: nat) = 0"
  proof -
    have "c = CHR 0x00 \<longleftrightarrow> (of_char c :: nat) = of_char (CHR 0x00)"
      by (simp only: of_char_eq_iff)
    then show ?thesis by simp
  qed
  have low: "(c = CHR 0x00 \<or> c \<in> char_of ` {1 ..< 32 :: nat}) \<longleftrightarrow> \<not> 0x20 \<le> byte c"
  proof -
    have "byte c = int (of_char c)" by (simp add: byte_def of_nat_of_char)
    then show ?thesis unfolding ctl zero by arith
  qed
  have dom: "fst ` set replacer =
     {CHR '':'', CHR ''*'', CHR ''?'', CHR 0x22, CHR ''<'', CHR ''>'', CHR ''|'', CHR 0x7F, CHR 0x00}
     \<union> char_of ` {1 ..< 32 :: nat}"
    unfolding replacer_def set_append set_map image_Un image_image set_upt
    by (simp add: insert_commute)
  have mem: "c \<in> fst ` set replacer \<longleftrightarrow>
      c \<in> {CHR '':'', CHR ''*'', CHR ''?'', CHR 0x22, CHR ''<'', CHR ''>'', CHR ''|'', CHR 0x7F}
      \<or> (c = CHR 0x00 \<or> c \<in> char_of ` {1 ..< 32 :: nat})"
    unfolding dom Un_iff insert_iff empty_iff by (simp only: disj_ac)
  have "map_of replacer c = None \<longleftrightarrow> c \<notin> fst ` set replacer"
    by (simp only: map_of_eq_None_iff)
  then show ?thesis
    unfolding mem low by simp
qed

lemma snd_replacer: "(c, n) \<in> set replacer \<Longrightarrow> set n \<subseteq> {CHR ''_'', CHR 0x27}"
  unfolding replacer_def set_append set_map set_upt by auto

lemma set_Replace_replacer:
  assumes "c \<in> set (Replace replacer s)"
  shows "(c \<in> set s \<and> map_of replacer c = None) \<or> c \<in> {CHR ''_'', CHR 0x27}"
proof -
  from assms obtain x where x: "x \<in> set s"
    and c: "c \<in> set (case map_of replacer x of None \<Rightarrow> [x] | Some n \<Rightarrow> n)"
    by (auto simp: Replace_def)
  show ?thesis
  proof (cases "map_of replacer x")
    case None
    with x c show ?thesis by simp
  next
    case (Some n)
    then have "(x, n) \<in> set replacer" by (rule map_of_SomeD)
    then have "set n \<subseteq> {CHR ''_'', CHR 0x27}" by (rule snd_replacer)
    with c Some show ?thesis by auto
  qed
qed

lemma replaceAndTrim_chars:
  assumes "c \<in> set (replaceAndTrim s)"
  shows "\<not> unsafeChar c"
proof -
  let ?s2 = "ReplaceAll (ReplaceAll s CHR ''/'' CHR ''_'') (CHR 0x5C) CHR ''_''"
  have "set (replaceAndTrim s) \<subseteq> set (Replace replacer ?s2)"
    unfolding replaceAndTrim_def Let_def
    using set_Trim set_TrimSpace by (rule subset_trans)
  with assms have "c \<in> set (Replace replacer ?s2)" by blast
  then have "(c \<in> set ?s2 \<and> map_of replacer c = None) \<or> c \<in> {CHR ''_'', CHR 0x27}"
    by (rule set_Replace_replacer)
  then show ?thesis
  proof
    assume 1: "c \<in> set ?s2 \<and> map_of replacer c = None"
    then have "c \<noteq> CHR ''/''" "c \<noteq> CHR 0x5C"
      by (auto simp: ReplaceAll_def split: if_splits)
    with 1 show ?thesis
      unfolding map_of_replacer_None unsafeChar_def by auto
  next
    assume "c \<in> {CHR ''_'', CHR 0x27}"
    then show ?thesis by (auto simp: unsafeChar_def byte_def)
  qed
qed

lemma limitLength_Inr:
  assumes "limitLength t = Inr u"
  shows "set u \<subseteq> set t" and "length u \<le> maxLen"
proof -
  have sub: "set (take n (take m t) @ Ext t) \<subseteq> set t" for n m
    using set_Ext [of t] set_take_subset [of n "take m t"] set_take_subset [of m t] by auto
  have sub2: "set (take k (take n (take m t) @ Ext t)) \<subseteq> set t" for k n m
    using sub [of n m] set_take_subset [of k "take n (take m t) @ Ext t"] by blast
  have sub3: "set (take m t @ Ext t) \<subseteq> set t" for m
    using set_Ext [of t] set_take_subset [of m t] by auto
  have sub4: "set (take k (take m t @ Ext t)) \<subseteq> set t" for k m
    using sub3 [of m] set_take_subset [of k "take m t @ Ext t"] by blast
  from assms show "set u \<subseteq> set t"
    unfolding limitLength_def Let_def
    by (auto split: if_splits dest: subsetD [OF sub] subsetD [OF sub2] subsetD [OF sub3]
        subsetD [OF sub4])
  from assms show "length u \<le> maxLen"
    unfolding limitLength_def Let_def
    by (auto split: if_splits)
qed

lemma limitLength_Inl:
  "limitLength t = Inl p \<longleftrightarrow> p = SliceBoundsOutOfRange \<and> maxLen < length (Ext t)"
proof -
  have "length (Ext t) \<le> length t" by (rule length_Ext)
  then show ?thesis
    unfolding limitLength_def Let_def by (auto split: if_splits)
qed

lemma Ext_scan_underscore: "Ext_scan (xs @ [CHR ''_'']) seen = Ext_scan xs seen"
  by (induction xs seen rule: Ext_scan.induct) simp_all

lemma Ext_underscore: "Ext (CHR ''_'' # u) = Ext u"
  by (simp add: Ext_def Ext_scan_underscore)

lemma baseName_underscore: "baseName (CHR ''_'' # u) \<notin> set reservedNames"
proof -
  have "length (Ext u) \<le> length u" by (rule length_Ext)
  then have "Suc (length u) - length (Ext u) = Suc (length u - length (Ext u))" by arith
  then have "\<exists>v. baseName (CHR ''_'' # u) = CHR ''_'' # v"
    by (simp add: baseName_def Ext_underscore)
  then show ?thesis by (auto simp: reservedNames_def)
qed

lemma ToUpper_underscore: "ToUpper L (CHR ''_'' # t) = CHR ''_'' # ToUpper L t"
proof -
  have d: "DecodeRuneInString (CHR ''_'' # t) = (0x5F, 1)"
    by (simp add: DecodeRuneInString_def byte_def)
  have a: "AppendRune (unicode_ToUpper L 0x5F) = [CHR ''_'']"
    by (simp add: unicode_ToUpper_def AppendRune_def chr_def char_of_def)
  have u: "\<not> unicode_ToUpper L 0x5F < 0"
    by (simp add: unicode_ToUpper_def)
  have "Map_runes (unicode_ToUpper L) (CHR ''_'' # t) = CHR ''_'' # Map_runes (unicode_ToUpper L) t"
    using a u by (simp add: d)
  then show ?thesis
    by (simp add: ToUpper_def isASCII_def byte_def)
qed

lemma isReserved_underscore: "\<not> isReserved L (CHR ''_'' # t)"
  by (simp add: isReserved_def ToUpper_underscore baseName_underscore)

lemma digits_chars: "c \<in> set (digits n) \<Longrightarrow> 48 \<le> byte c \<and> byte c \<le> 57"
proof (induction n rule: digits.induct)
  case (1 n)
  have d: "byte (char_of (48 + k)) = 48 + int k" if "k < 10" for k :: nat
  proof -
    have b: "byte x = int (of_char x)" for x by (simp add: byte_def of_nat_of_char)
    have "(of_char (char_of (48 + k)) :: nat) = 48 + k" using that by simp
    then show ?thesis unfolding b by simp
  qed
  show ?case
  proof (cases "n < 10")
    case True
    with 1(2) have "c = char_of (48 + n)" by (simp add: digits.simps [of n])
    with d [OF True] True show ?thesis by simp
  next
    case False
    with 1(2) have "c \<in> set (digits (n div 10)) \<or> c = char_of (48 + n mod 10)"
      by (auto simp: digits.simps [of n])
    then show ?thesis
    proof
      assume "c \<in> set (digits (n div 10))"
      with 1(1) False show ?thesis by simp
    next
      assume "c = char_of (48 + n mod 10)"
      moreover have "n mod 10 < 10" by simp
      ultimately show ?thesis using d [of "n mod 10"] by (simp add: zmod_int)
    qed
  qed
qed

lemma length_digits: "n < 10 ^ k \<Longrightarrow> 0 < k \<Longrightarrow> length (digits n) \<le> k"
proof (induction n arbitrary: k rule: digits.induct)
  case (1 n)
  show ?case
  proof (cases "n < 10")
    case True
    with 1(3) show ?thesis by (simp add: digits.simps [of n])
  next
    case False
    with 1(2) have k1: "1 < k"
      by (cases "k = 1") (use 1(3) in auto)
    then obtain j where j: "k = Suc j" "0 < j" by (cases k) auto
    with 1(2) have "n div 10 < 10 ^ j" by (simp add: less_mult_imp_div_less mult.commute)
    with 1(1) False j have "length (digits (n div 10)) \<le> j" by simp
    with False j show ?thesis by (simp add: digits.simps [of n])
  qed
qed

lemma FormatInt_chars: "c \<in> set (FormatInt i) \<Longrightarrow> byte c = 45 \<or> 48 \<le> byte c \<and> byte c \<le> 57"
  by (auto simp: FormatInt_def byte_def dest: digits_chars split: if_splits)

lemma length_FormatInt_sint: "length (FormatInt (sint (w :: 64 word))) \<le> 20"
proof -
  have lo: "- (2 ^ 63) \<le> sint w" using sint_ge [of w] by simp
  have hi: "sint w < 2 ^ 63" using sint_lt [of w] by simp
  have "nat \<bar>sint w\<bar> < 10 ^ 19" using lo hi by simp
  then have "length (digits (nat \<bar>sint w\<bar>)) \<le> 19" by (rule length_digits) simp
  then show ?thesis by (auto simp: FormatInt_def abs_if)
qed

lemma baseName_take: "\<exists>k. baseName u = take k u"
  unfolding baseName_def by (cases "Ext u = []") (auto intro: exI [of _ "length u"])

lemma baseName_not_reserved:
  assumes "u = c # v" and "c \<notin> {CHR ''C'', CHR ''P'', CHR ''A'', CHR ''N'', CHR ''L''}"
  shows "baseName u \<notin> set reservedNames"
proof -
  obtain k where "baseName u = take k u" using baseName_take by blast
  with assms(1) have "baseName u = [] \<or> (\<exists>w. baseName u = c # w)"
    by (cases k) auto
  with assms(2) show ?thesis by (auto simp: reservedNames_def)
qed

lemma unsafeChar_sep:
  assumes "\<not> unsafeChar c"
  shows "c \<noteq> CHR ''/'' \<and> c \<noteq> CHR 0x5C \<and> 0x20 \<le> byte c \<and> byte c \<noteq> 0x7F"
proof -
  from assms have 1: "c \<noteq> CHR ''/''" and 2: "c \<noteq> CHR 0x5C" and 3: "c \<noteq> CHR 0x7F"
    and 4: "0x20 \<le> byte c"
    unfolding unsafeChar_def by simp_all
  have "byte c \<noteq> 0x7F"
  proof
    assume "byte c = 0x7F"
    then have "(of_char c :: int) = of_char (CHR 0x7F)" by (simp add: byte_def)
    then have "c = CHR 0x7F" by (simp only: of_char_eq_iff)
    with 3 show False by simp
  qed
  with 1 2 4 show ?thesis by simp
qed

lemma unsafeChar_byte:
  "unsafeChar c \<Longrightarrow>
     byte c < 0x20 \<or> byte c \<in> {0x2F, 0x5C, 0x3A, 0x2A, 0x3F, 0x22, 0x3C, 0x3E, 0x7C, 0x7F}"
  unfolding unsafeChar_def by (elim disjE insertE emptyE) (simp_all add: byte_def)

lemma placeholder_prefix_bytes:
  "c \<in> set ''sanitized_file_'' \<Longrightarrow> 0x5F \<le> byte c \<and> byte c \<le> 0x7A"
  by (simp add: byte_def) (elim disjE; simp)

lemma placeholder_safe:
  assumes "c \<in> set (''sanitized_file_'' @ FormatInt i)"
  shows "\<not> unsafeChar c"
proof
  assume u: "unsafeChar c"
  from assms have "c \<in> set ''sanitized_file_'' \<or> c \<in> set (FormatInt i)"
    by (simp only: set_append Un_iff)
  then have "byte c = 45 \<or> 48 \<le> byte c \<and> byte c \<le> 57 \<or> 0x5F \<le> byte c \<and> byte c \<le> 0x7A"
    using placeholder_prefix_bytes FormatInt_chars by blast
  with unsafeChar_byte [OF u] show False by auto
qed

lemma empty_filename_safe:
  assumes "c \<in> set ''empty_filename''"
  shows "\<not> unsafeChar c"
proof
  assume u: "unsafeChar c"
  from assms have "0x5F \<le> byte c \<and> byte c \<le> 0x7A"
    by (simp add: byte_def) (elim disjE; simp)
  with unsafeChar_byte [OF u] show False by auto
qed

lemma isASCII_digits: "isASCII (digits n)"
  using digits_chars [of _ n] by (fastforce simp: isASCII_def list_all_iff)

lemma isASCII_FormatInt: "isASCII (FormatInt i)"
  using isASCII_digits by (simp add: FormatInt_def isASCII_def byte_def)

lemma ToUpper_ascii_Cons:
  "isASCII (c # v) \<Longrightarrow> \<exists>w. ToUpper L (c # v) =
      (if 0x61 \<le> byte c \<and> byte c \<le> 0x7A then chr (byte c - 32) else c) # w"
  by (simp add: ToUpper_def)

lemma placeholder_not_reserved:
  "baseName (ToUpper L (''sanitized_file_'' @ FormatInt i)) \<notin> set reservedNames"
proof -
  have "isASCII (''sanitized_file_'' @ FormatInt i)"
    using isASCII_FormatInt [of i] by (simp add: isASCII_def byte_def)
  then have "isASCII (CHR ''s'' # (''anitized_file_'' @ FormatInt i))" by simp
  from ToUpper_ascii_Cons [OF this, of L]
  obtain w where "ToUpper L (''sanitized_file_'' @ FormatInt i) = CHR ''S'' # w"
    by (auto simp: byte_def chr_def char_of_def)
  then show ?thesis by (rule baseName_not_reserved) simp
qed

lemma empty_filename_not_reserved: "baseName (ToUpper L ''empty_filename'') \<notin> set reservedNames"
proof -
  have "isASCII ''empty_filename''" by (simp add: isASCII_def byte_def)
  from ToUpper_ascii_Cons [OF this, of L]
  obtain w where "ToUpper L ''empty_filename'' = CHR ''E'' # w"
    by (auto simp: byte_def chr_def char_of_def)
  then show ?thesis by (rule baseName_not_reserved) simp
qed

lemma sanitize_returns:
  assumes "length (Ext (replaceAndTrim x)) \<le> maxLen"
  shows "\<exists>y. sanitize L now x = Inr y"
proof (cases "limitLength (replaceAndTrim x)")
  case (Inl p)
  with assms show ?thesis by (simp add: limitLength_Inl)
next
  case (Inr t)
  then show ?thesis by (simp add: sanitize_def)
qed

lemma sanitize_cases:
  assumes "sanitize L now x = Inr y"
  obtains (empty) "x = []" "y = ''empty_filename''"
  | (placeholder) t where "x \<noteq> []" "limitLength (replaceAndTrim x) = Inr t"
      "t = [] \<or> t = ''.'' \<or> t = ''..''" "y = ''sanitized_file_'' @ FormatInt (sint now)"
  | (reserved) t where "x \<noteq> []" "limitLength (replaceAndTrim x) = Inr t"
      "\<not> (t = [] \<or> t = ''.'' \<or> t = ''..'')" "isReserved L t" "y = CHR ''_'' # t"
  | (plain) "x \<noteq> []" "limitLength (replaceAndTrim x) = Inr y"
      "\<not> (y = [] \<or> y = ''.'' \<or> y = ''..'')" "\<not> isReserved L y"
  using assms unfolding sanitize_def
  by (auto split: if_splits sum.splits)

lemma sanitize_properties:
  assumes "sanitize L now x = Inr y"
  shows "y \<noteq> []" and "\<forall>c\<in>set y. \<not> unsafeChar c"
    and "length y \<le> maxLen \<or> (\<exists>t. y = CHR ''_'' # t \<and> length t \<le> maxLen \<and> isReserved L t)"
    and "\<not> isReserved L y"
proof -
  have safe: "\<forall>c\<in>set t. \<not> unsafeChar c" if "limitLength (replaceAndTrim x) = Inr t" for t
    using limitLength_Inr(1) [OF that] replaceAndTrim_chars by blast
  from assms show "y \<noteq> []"
    by (cases rule: sanitize_cases) auto
  from assms show "\<forall>c\<in>set y. \<not> unsafeChar c"
  proof (cases rule: sanitize_cases)
    case empty
    then show ?thesis using empty_filename_safe by blast
  next
    case (placeholder t)
    then show ?thesis using placeholder_safe by blast
  next
    case (reserved t)
    have "\<not> unsafeChar CHR ''_''" by (simp add: unsafeChar_def byte_def)
    with safe [OF reserved(2)] reserved(5) show ?thesis by simp
  next
    case plain
    then show ?thesis using safe by blast
  qed
  from assms show "length y \<le> maxLen \<or> (\<exists>t. y = CHR ''_'' # t \<and> length t \<le> maxLen \<and> isReserved L t)"
  proof (cases rule: sanitize_cases)
    case empty
    then show ?thesis by (simp add: maxLen_def)
  next
    case (placeholder t)
    then show ?thesis using length_FormatInt_sint [of now] by (simp add: maxLen_def)
  next
    case (reserved t)
    then show ?thesis using limitLength_Inr(2) by blast
  next
    case plain
    then show ?thesis using limitLength_Inr(2) by blast
  qed
  from assms show "\<not> isReserved L y"
  proof (cases rule: sanitize_cases)
    case empty
    show ?thesis unfolding empty(2) isReserved_def by (rule empty_filename_not_reserved)
  next
    case (placeholder t)
    show ?thesis unfolding placeholder(4) isReserved_def by (rule placeholder_not_reserved)
  next
    case (reserved t)
    then show ?thesis by (simp add: isReserved_underscore)
  next
    case plain
    then show ?thesis by simp
  qed
qed

section \<open>What the sanitizer guarantees\<close>

text \<open>
  \<^bold>\<open>C1\<close> (as amended). For every input \<open>x\<close> whose name, after replacement and
  trimming, does not end in an extension (the part from its last dot) longer than 220
  bytes, \<open>sanitize\<close> returns a string that is not empty, contains no path separator
  (slash, backslash) and no ASCII control character (0x00-0x1F, 0x7F), is at most 220 bytes
  long unless it is a name of at most 220 bytes with the reserved-name prefix \<open>_\<close> put
  before it (so at most 221 bytes), and whose base name, extension cut off and compared
  in upper case, is none of the reserved device names.
\<close>

theorem sanitize_safe:
  assumes "length (Ext (replaceAndTrim x)) \<le> maxLen"
  shows "\<exists>y. sanitize L now x = Inr y \<and> y \<noteq> []
           \<and> CHR ''/'' \<notin> set y \<and> CHR 0x5C \<notin> set y
           \<and> (\<forall>c\<in>set y. 0x20 \<le> byte c \<and> byte c \<noteq> 0x7F)
           \<and> (length y \<le> maxLen \<or>
                (\<exists>t. y = CHR ''_'' # t \<and> length t \<le> maxLen \<and> isReserved L t))
           \<and> baseName (ToUpper L y) \<notin> set reservedNames"
proof -
  obtain y where y: "sanitize L now x = Inr y"
    using sanitize_returns [OF assms] by blast
  note p = sanitize_properties [OF y]
  from p(2) have "CHR ''/'' \<notin> set y" "CHR 0x5C \<notin> set y"
    "\<forall>c\<in>set y. 0x20 \<le> byte c \<and> byte c \<noteq> 0x7F"
    using unsafeChar_sep by blast+
  with y p(1) p(3) p(4) show ?thesis
    unfolding isReserved_def by blast
qed

text \<open>The theorem at the input \<open>../../etc/passwd\<close>, whose sanitized form is
  \<open>_.._etc_passwd\<close>.\<close>

theorem sanitize_safe_witness:
  "length (Ext (replaceAndTrim ''../../etc/passwd'')) \<le> maxLen
   \<and> sanitize asciiUTC 17 ''../../etc/passwd'' = Inr ''_.._etc_passwd''
   \<and> (\<exists>y. sanitize asciiUTC 17 ''../../etc/passwd'' = Inr y \<and> y \<noteq> []
           \<and> CHR ''/'' \<notin> set y \<and> CHR 0x5C \<notin> set y
           \<and> (\<forall>c\<in>set y. 0x20 \<le> byte c \<and> byte c \<noteq> 0x7F)
           \<and> (length y \<le> maxLen \<or>
                (\<exists>t. y = CHR ''_'' # t \<and> length t \<le> maxLen \<and> isReserved asciiUTC t))
           \<and> baseName (ToUpper asciiUTC y) \<notin> set reservedNames)"
proof -
  have h: "length (Ext (replaceAndTrim ''../../etc/passwd'')) \<le> maxLen" by code_simp
  have e: "sanitize asciiUTC 17 ''../../etc/passwd'' = Inr ''_.._etc_passwd''" by code_simp
  show ?thesis
    by (intro conjI) (rule h, rule e, rule sanitize_safe [OF h])
qed

text \<open>
  C1 as stated fails: the name \<open>CON.\<close> followed by 216 letters is 220 bytes long and
  reserved, so it gets the prefix and comes out 221 bytes long; and a name whose
  extension is longer than 220 bytes makes the slice bound negative, where Go panics.
\<close>

theorem sanitize_length_counterexample:
  "sanitize asciiUTC 17 (''CON.'' @ replicate 216 CHR ''x'') = Inr (''_CON.'' @ replicate 216 CHR ''x'')
   \<and> length (''_CON.'' @ replicate 216 CHR ''x'') = 221
   \<and> sanitize asciiUTC 17 (''a.'' @ replicate 221 CHR ''x'') = Inl SliceBoundsOutOfRange"
  by code_simp

section \<open>Sanitizing twice\<close>

lemma Replace_replacer_id:
  assumes "\<forall>c\<in>set s. \<not> unsafeChar c"
  shows "Replace replacer s = s"
proof -
  have none: "map_of replacer c = None" if "c \<in> set s" for c
  proof -
    from assms that have u: "\<not> unsafeChar c" by blast
    then have "c \<notin> {CHR '':'', CHR ''*'', CHR ''?'', CHR 0x22, CHR ''<'', CHR ''>'', CHR ''|'', CHR 0x7F}"
      and "0x20 \<le> byte c"
      unfolding unsafeChar_def by simp_all
    then show ?thesis by (simp only: map_of_replacer_None) simp
  qed
  have "map (\<lambda>c. case map_of replacer c of None \<Rightarrow> [c] | Some n \<Rightarrow> n) s = map (\<lambda>c. [c]) s"
    by (rule map_cong) (simp_all add: none)
  moreover have "concat (map (\<lambda>c. [c]) s) = s" by (induction s) simp_all
  ultimately show ?thesis by (simp only: Replace_def)
qed

lemma ReplaceAll_id: "old \<notin> set s \<Longrightarrow> ReplaceAll s old new = s"
  by (induction s) (auto simp: ReplaceAll_def)

lemma replaceAndTrim_id:
  assumes safe: "\<forall>c\<in>set y. \<not> unsafeChar c"
    and sp: "TrimSpace y = y" and dot: "Trim y CHR ''.'' = y"
  shows "replaceAndTrim y = y"
proof -
  have "CHR ''/'' \<notin> set y" "CHR 0x5C \<notin> set y"
    using safe unsafeChar_sep by blast+
  then have "ReplaceAll (ReplaceAll y CHR ''/'' CHR ''_'') (CHR 0x5C) CHR ''_'' = y"
    by (simp add: ReplaceAll_id)
  then show ?thesis
    by (simp add: replaceAndTrim_def Replace_replacer_id [OF safe] sp dot)
qed

lemma limitLength_short: "length t \<le> maxLen \<Longrightarrow> limitLength t = Inr t"
  by (simp add: limitLength_def)

text \<open>
  Where the first pass takes none of the special branches and returns a name \<open>y\<close> that
  neither begins nor ends with white space or a dot, the second pass returns \<open>y\<close> again.
\<close>

lemma sanitize_fixed_point:
  assumes "x \<noteq> []"
    and "limitLength (replaceAndTrim x) = Inr y"
    and "y \<noteq> [] \<and> y \<noteq> ''.'' \<and> y \<noteq> ''..''"
    and "\<not> isReserved L y"
    and "TrimSpace y = y" and "Trim y CHR ''.'' = y"
  shows "sanitize L now x = Inr y \<and> sanitize L now' y = Inr y"
proof -
  have first: "sanitize L now x = Inr y"
    using assms(1-4) by (simp add: sanitize_def)
  have safe: "\<forall>c\<in>set y. \<not> unsafeChar c"
    using limitLength_Inr(1) [OF assms(2)] replaceAndTrim_chars by blast
  have "replaceAndTrim y = y"
    using safe assms(5,6) by (rule replaceAndTrim_id)
  moreover have "limitLength y = Inr y"
    using limitLength_Inr(2) [OF assms(2)] by (rule limitLength_short)
  ultimately have "sanitize L now' y = Inr y"
    using assms(3,4) by (simp add: sanitize_def)
  with first show ?thesis by simp
qed

text \<open>
  \<^bold>\<open>C6\<close> says that sanitizing twice is sanitizing once, for every input that takes
  neither the reserved-name branch nor the empty and placeholder branches. The code does
  not keep to it. Its comment announces "Trim leading/trailing spaces and dots", but it
  trims the white space first and the dots second, and it truncates after both, so the
  first pass can return a name that still begins or ends with a space. The input \<open>. a\<close>
  takes none of the special branches and comes out as \<open> a\<close> with its leading space, which
  the second pass turns into \<open>a\<close>. In the same way \<open>a .\<close> gives \<open>a \<close> and then \<open>a\<close>, the
  input \<open>. .\<close> gives a single space, and 219 letters followed by \<open> b\<close> are cut to a name
  that ends with a space, which the second pass takes away.
\<close>

theorem sanitize_twice_differs:
  "''. a'' \<noteq> []
   \<and> limitLength (replaceAndTrim ''. a'') = Inr '' a''
   \<and> \<not> isReserved asciiUTC '' a''
   \<and> sanitize asciiUTC 0 ''. a'' = Inr '' a''
   \<and> sanitize asciiUTC 0 '' a'' = Inr ''a''
   \<and> sanitize asciiUTC 0 ''a .'' = Inr ''a ''
   \<and> sanitize asciiUTC 0 ''a '' = Inr ''a''
   \<and> sanitize asciiUTC 0 ''. .'' = Inr '' ''
   \<and> sanitize asciiUTC 0 (replicate 219 CHR ''a'' @ '' b'') = Inr (replicate 219 CHR ''a'' @ '' '')
   \<and> sanitize asciiUTC 0 (replicate 219 CHR ''a'' @ '' '') = Inr (replicate 219 CHR ''a'')"
  by code_simp

section \<open>The locator's filename and the destination path\<close>

lemma filenameFromDocument_nonempty:
  "filenameFromDocument L now doc = Inr name \<Longrightarrow> name \<noteq> []"
  unfolding filenameFromDocument_def Let_def
  by (auto split: option.splits dest: sanitize_properties(1))

lemma inputLocation_cases:
  assumes "inputLocation L now msg = Inr (Inr (loc, filename))"
  obtains (document) doc where
      "msg_Media msg = Some (MessageMediaDocument (Some (DocumentNotEmpty doc)))"
      "filenameFromDocument L now doc = Inr filename"
      "loc = InputDocumentFileLocation (doc_ID doc) (doc_AccessHash doc) (doc_FileReference doc) []"
  | (photo) photo biggest biggestType largestDim where
      "msg_Media msg = Some (MessageMediaPhoto (Some (PhotoNotEmpty photo)))"
      "largestPhotoSize (photo_Sizes photo) None [] 0 = (biggest, biggestType, largestDim)"
      "biggest \<noteq> None" "biggestType \<noteq> []"
      "filename = FormatInt (photo_ID photo) @ ''_'' @ biggestType @ ''.jpg''"
      "loc = InputPhotoFileLocation (photo_ID photo) (photo_AccessHash photo)
               (photo_FileReference photo) biggestType"
  using assms unfolding inputLocation_def Let_def
  by (auto split: option.splits MessageMediaClass.splits DocumentClass.splits PhotoClass.splits
      sum.splits prod.splits if_splits)

lemma inputLocation_filename_nonempty:
  assumes "inputLocation L now msg = Inr (Inr (loc, filename))"
  shows "filename \<noteq> []"
  using assms
proof (cases rule: inputLocation_cases)
  case (document doc)
  then show ?thesis using filenameFromDocument_nonempty by blast
next
  case (photo photo biggest biggestType largestDim)
  then show ?thesis by simp
qed


text \<open>
  \<^bold>\<open>C10\<close>. Whenever the locator accepts a message's media (a non-empty document, or a
  non-empty photo with a size it can select), the candidate filename it returns is not
  empty, so \<open>saveMedia\<close> keeps it: the fallback name built from the message ID and the
  clock is never used, whatever the clock reads.
\<close>

theorem locator_filename_nonempty:
  assumes "inputLocation L now msg = Inr (Inr (loc, filename))"
  shows "filename \<noteq> [] \<and> effectiveFilename now' msg filename = filename"
  using inputLocation_filename_nonempty [OF assms] by (simp add: effectiveFilename_def)

text \<open>
  The theorem at the sample message, whose document has no filename attribute and the
  MIME type \<open>text/plain; charset=utf-8\<close>.
\<close>

theorem locator_filename_nonempty_witness:
  "inputLocation asciiUTC 17 (sampleMessage []) =
     Inr (Inr (InputDocumentFileLocation 5 1 ''r'' [], ''5.plain''))
   \<and> ''5.plain'' \<noteq> []
   \<and> effectiveFilename 18 (sampleMessage []) ''5.plain'' = ''5.plain''"
proof -
  have h: "inputLocation asciiUTC 17 (sampleMessage []) =
     Inr (Inr (InputDocumentFileLocation 5 1 ''r'' [], ''5.plain''))"
    by code_simp
  from locator_filename_nonempty [OF h, of 18] h show ?thesis by simp
qed

lemma sanitize_clock:
  assumes "sanitize L now s = Inr y" and "y \<noteq> ''sanitized_file_'' @ FormatInt (sint now)"
  shows "sanitize L now' s = Inr y"
  using assms(1)
proof (cases rule: sanitize_cases)
  case empty
  then show ?thesis by (simp add: sanitize_def)
next
  case (placeholder t)
  with assms(2) show ?thesis by simp
next
  case (reserved t)
  then show ?thesis by (simp add: sanitize_def)
next
  case plain
  then show ?thesis by (simp add: sanitize_def)
qed

lemma filenameFromDocument_clock:
  assumes "filenameFromDocument L now doc = Inr y"
    and "y \<noteq> ''sanitized_file_'' @ FormatInt (sint now)"
  shows "filenameFromDocument L now' doc = Inr y"
  using assms unfolding filenameFromDocument_def Let_def
  by (auto split: option.splits intro: sanitize_clock)

lemma inputLocation_clock:
  assumes "inputLocation L now msg = Inr (Inr (loc, name))"
    and "name \<noteq> ''sanitized_file_'' @ FormatInt (sint now)"
  shows "inputLocation L now' msg = Inr (Inr (loc, name))"
  using assms(1)
proof (cases rule: inputLocation_cases)
  case (document doc)
  from filenameFromDocument_clock [OF document(2) assms(2), of now'] document(1,3)
  show ?thesis by (simp add: inputLocation_def)
next
  case (photo photo biggest biggestType largestDim)
  then show ?thesis by (simp add: inputLocation_def)
qed

lemma destPath_nonempty:
  "filename \<noteq> [] \<Longrightarrow>
     destinationPath L now msg filename =
       Join [Join [mediaDir, fst (subDirName msg)], Format L (msg_Date msg) @ ''_'' @ filename]"
  by (simp add: destinationPath_def effectiveFilename_def Let_def)

text \<open>
  \<^bold>\<open>C2\<close> (as amended). In one local time zone and for a candidate filename that is not
  empty, the destination path is a function of the sender-or-peer subdirectory, the message
  timestamp and the filename:
  two messages that agree on these get the same path, whatever their IDs and whatever the
  clock reads. And when the locator returns a candidate filename other than the
  sanitizer's clock-based placeholder, a second run at another clock reading returns the
  same location and filename, hence the same destination path.
\<close>

theorem destPath_determined:
  "(filename \<noteq> [] \<longrightarrow> fst (subDirName msg) = fst (subDirName msg') \<longrightarrow>
      msg_Date msg = msg_Date msg' \<longrightarrow>
      destinationPath L now msg filename = destinationPath L now' msg' filename)
   \<and> (inputLocation L now msg = Inr (Inr (loc, name)) \<longrightarrow>
        name \<noteq> ''sanitized_file_'' @ FormatInt (sint now) \<longrightarrow>
        inputLocation L now' msg = Inr (Inr (loc, name))
        \<and> destinationPath L now' msg name = destinationPath L now msg name)"
proof (intro conjI impI)
  assume "filename \<noteq> []" "fst (subDirName msg) = fst (subDirName msg')"
    "msg_Date msg = msg_Date msg'"
  then show "destinationPath L now msg filename = destinationPath L now' msg' filename"
    by (simp add: destPath_nonempty)
next
  assume a: "inputLocation L now msg = Inr (Inr (loc, name))"
    and b: "name \<noteq> ''sanitized_file_'' @ FormatInt (sint now)"
  then show "inputLocation L now' msg = Inr (Inr (loc, name))" by (rule inputLocation_clock)
  from inputLocation_filename_nonempty [OF a]
  show "destinationPath L now' msg name = destinationPath L now msg name"
    by (simp add: destPath_nonempty)
qed

text \<open>
  The theorem at the sample message: the path of \<open>report.pdf\<close> is the same for another
  message ID and clock reading, and a second run of the locator returns \<open>5.plain\<close> again.
\<close>

theorem destPath_determined_witness:
  "''report.pdf'' \<noteq> []
   \<and> destinationPath asciiUTC 1 (sampleMessage []) ''report.pdf''
       = destinationPath asciiUTC 2 ((sampleMessage []) \<lparr>msg_ID := 8\<rparr>) ''report.pdf''
   \<and> inputLocation asciiUTC 1 (sampleMessage []) =
        Inr (Inr (InputDocumentFileLocation 5 1 ''r'' [], ''5.plain''))
   \<and> inputLocation asciiUTC 2 (sampleMessage []) =
        Inr (Inr (InputDocumentFileLocation 5 1 ''r'' [], ''5.plain''))
   \<and> destinationPath asciiUTC 2 (sampleMessage []) ''5.plain''
       = destinationPath asciiUTC 1 (sampleMessage []) ''5.plain''"
proof -
  have 1: "''report.pdf'' \<noteq> []" by simp
  have 2: "fst (subDirName (sampleMessage [])) = fst (subDirName ((sampleMessage []) \<lparr>msg_ID := 8\<rparr>))"
    by (simp add: subDirName_def sampleMessage_def)
  have 3: "msg_Date (sampleMessage []) = msg_Date ((sampleMessage []) \<lparr>msg_ID := 8\<rparr>)"
    by simp
  have 5: "inputLocation asciiUTC 1 (sampleMessage []) =
        Inr (Inr (InputDocumentFileLocation 5 1 ''r'' [], ''5.plain''))"
    by code_simp
  have 6: "''5.plain'' \<noteq> ''sanitized_file_'' @ FormatInt (sint (1 :: 64 word))" by simp
  note t = destPath_determined [of "''report.pdf''" "sampleMessage []"
      "(sampleMessage []) \<lparr>msg_ID := 8\<rparr>" asciiUTC 1 2 "InputDocumentFileLocation 5 1 ''r'' []"
      "''5.plain''"]
  note A = t [THEN conjunct1, THEN mp, OF 1, THEN mp, OF 2, THEN mp, OF 3]
  note B = t [THEN conjunct2, THEN mp, OF 5, THEN mp, OF 6]
  show ?thesis
    by (intro conjI) (rule 1, rule A, rule 5, rule B [THEN conjunct1], rule B [THEN conjunct2])
qed

text \<open>
  C2 as stated fails where the clock enters the name. For the empty candidate filename the
  path ends in the message ID and the clock reading, so two derivations differ; and for a
  document named \<open>...\<close> the sanitizer returns its placeholder, which carries the clock
  reading, so two runs of the locator return different filenames. The timestamp in the path
  is rendered in the local time zone of the process, so a run in another zone derives
  another path as well.
\<close>

theorem destPath_clock_counterexample:
  "destinationPath asciiUTC 1 (sampleMessage []) [] = ''media_backup/42/20231027_103015_7_1.dat''
   \<and> destinationPath asciiUTC 2 (sampleMessage []) [] = ''media_backup/42/20231027_103015_7_2.dat''
   \<and> inputLocation asciiUTC 1 (sampleMessage [DocumentAttributeFilename ''...'']) =
        Inr (Inr (InputDocumentFileLocation 5 1 ''r'' [], ''sanitized_file_1''))
   \<and> inputLocation asciiUTC 2 (sampleMessage [DocumentAttributeFilename ''...'']) =
        Inr (Inr (InputDocumentFileLocation 5 1 ''r'' [], ''sanitized_file_2''))
   \<and> destinationPath asciiUTC 1 (sampleMessage []) ''report.pdf''
        = ''media_backup/42/20231027_103015_report.pdf''
   \<and> destinationPath asciiPlusOne 1 (sampleMessage []) ''report.pdf''
        = ''media_backup/42/20231027_113015_report.pdf''"
  by code_simp

section \<open>The cursor and the scan of a page\<close>

lemma processEvent_maxID:
  "processEvent L m st ev = Inr st' \<Longrightarrow> maxID st' = ev_ID ev"
  unfolding processEvent_def Let_def
  by (auto split: ChannelAdminLogEventActionClass.splits MessageClass.splits if_splits
      sum.splits prod.splits option.splits)

lemma processEvent_panics:
  "processEvent L m st ev = Inl p \<Longrightarrow> locatorPanics L m ev"
  unfolding processEvent_def locatorPanics_def saveMedia_def Let_def
  by (auto split: ChannelAdminLogEventActionClass.splits MessageClass.splits if_splits
      sum.splits prod.splits option.splits fetch_result.splits)

lemma processEvents_maxID:
  "processEvents L M st evs = Inr st' \<Longrightarrow> evs \<noteq> [] \<Longrightarrow> maxID st' = ev_ID (last evs)"
proof (induction evs arbitrary: M st)
  case Nil
  then show ?case by simp
next
  case (Cons ev evs)
  from Cons.prems(1) obtain st1 where 1: "processEvent L (M 0) st ev = Inr st1"
    and 2: "processEvents L (\<lambda>i. M (Suc i)) st1 evs = Inr st'"
    by (auto split: sum.splits)
  show ?case
  proof (cases "evs = []")
    case True
    with 1 2 show ?thesis by (simp add: processEvent_maxID)
  next
    case False
    with Cons.IH [OF 2] show ?thesis by simp
  qed
qed

lemma processEvents_panics:
  "processEvents L M st evs = Inl p \<Longrightarrow> \<exists>i<length evs. locatorPanics L (M i) (evs ! i)"
proof (induction evs arbitrary: M st)
  case Nil
  then show ?case by simp
next
  case (Cons ev evs)
  show ?case
  proof (cases "processEvent L (M 0) st ev")
    case (Inl q)
    then have "locatorPanics L (M 0) ((ev # evs) ! 0)" by (simp add: processEvent_panics)
    then show ?thesis by blast
  next
    case (Inr st1)
    with Cons.prems have "processEvents L (\<lambda>i. M (Suc i)) st1 evs = Inl p" by simp
    from Cons.IH [OF this] obtain i where "i < length evs"
      "locatorPanics L (M (Suc i)) (evs ! i)" by blast
    then have "Suc i < length (ev # evs) \<and> locatorPanics L (M (Suc i)) ((ev # evs) ! Suc i)"
      by simp
    then show ?thesis by blast
  qed
qed

text \<open>
  The first thing done with an event is to set \<open>maxID\<close> to its ID. So whenever a page that
  is not empty is processed to its end, whatever the starting state and the behaviour of
  the outside world (every sequence \<open>M\<close> of clock readings and fetch results, failing or
  not), \<open>maxID\<close> ends equal to the ID of the last event of the page. The only way the page
  is not processed to its end is a panic of the locator on one of its events.
\<close>

lemma processPage_maxID:
  assumes "processPage L M st Events = Inr st'" and "Events \<noteq> []"
  shows "maxID st' = ev_ID (last Events)"
proof (cases "processEvents L M (st\<lparr>foundDeletedMedia := False\<rparr>) Events")
  case (Inl p)
  with assms(1) show ?thesis by (simp add: processPage_def)
next
  case (Inr st1)
  from processEvents_maxID [OF Inr assms(2)] assms(1) Inr show ?thesis
    by (auto simp: processPage_def split: if_splits)
qed

lemma processPage_panics:
  assumes "processPage L M st Events = Inl p"
  shows "\<exists>i<length Events. locatorPanics L (M i) (Events ! i)"
proof (cases "processEvents L M (st\<lparr>foundDeletedMedia := False\<rparr>) Events")
  case (Inl q)
  then show ?thesis by (rule processEvents_panics)
next
  case (Inr st1)
  with assms show ?thesis by (simp add: processPage_def split: if_splits)
qed

text \<open>
  The sample page in a world where every fetch fails: the first event's download fails,
  the page is processed to its end, and the cursor ends at 8, the ID of the last event.
\<close>

lemma cursor_after_sample_page:
  "\<exists>st'. processPage asciiUTC alwaysBreaks freshScan samplePage = Inr st' \<and> maxID st' = 8"
proof -
  have h: "samplePage \<noteq> []" by (simp add: samplePage_def)
  have r: "\<not> isl (processPage asciiUTC alwaysBreaks freshScan samplePage)" by code_simp
  have l: "ev_ID (last samplePage) = 8" by (simp add: samplePage_def)
  from r obtain st' where st': "processPage asciiUTC alwaysBreaks freshScan samplePage = Inr st'"
    by (cases "processPage asciiUTC alwaysBreaks freshScan samplePage") auto
  from processPage_maxID [OF st' h] l have "maxID st' = 8" by simp
  with st' show ?thesis by blast
qed

text \<open>Unsupported media is a skip that counts as processed, and an error that
  \<open>saveMedia\<close> returns is logged while the loop goes on.\<close>

lemma unsupported_media_skipped:
  assumes "msg_Media msg = Some MessageMediaOther"
  shows "inputLocation L now msg = Inr (Inl errUnsupportedMedia)"
    and "saveMedia L m w msg = Inr (None, logMsg Debug ''Skipping unsupported media type'' w)"
    and "processEvent L m st (deletion ID msg) =
           Inr (st\<lparr>maxID := ID, foundDeletedMedia := True, total := total st + 1,
                   world := logMsg Info ''Successfully processed/saved media for message''
                     (logMsg Debug ''Skipping unsupported media type''
                        (logMsg Info ''Found deleted message with media'' (world st)))\<rparr>)"
proof -
  show 1: "inputLocation L now msg = Inr (Inl errUnsupportedMedia)" for now
    using assms by (simp add: inputLocation_def)
  show 2: "saveMedia L m w msg = Inr (None, logMsg Debug ''Skipping unsupported media type'' w)"
    for w
    by (simp add: saveMedia_def 1)
  show "processEvent L m st (deletion ID msg) =
           Inr (st\<lparr>maxID := ID, foundDeletedMedia := True, total := total st + 1,
                   world := logMsg Info ''Successfully processed/saved media for message''
                     (logMsg Debug ''Skipping unsupported media type''
                        (logMsg Info ''Found deleted message with media'' (world st)))\<rparr>)"
    using assms by (simp add: processEvent_def deletion_def 2 Let_def)
qed

lemma returned_error_contained:
  assumes "ev_Action ev = ChannelAdminLogEventActionDeleteMessage (MessageNotEmpty msg)"
    and "msg_Media msg \<noteq> None"
    and "saveMedia L (M 0) (logMsg Info ''Found deleted message with media'' (world st)) msg
           = Inr (Some err, w')"
  shows "processEvents L M st (ev # evs) =
           processEvents L (\<lambda>i. M (Suc i))
             (st\<lparr>maxID := ev_ID ev, foundDeletedMedia := True,
                  world := logMsg Warn ''Failed to save media'' w'\<rparr>) evs"
  using assms by (simp add: processEvent_def Let_def)

lemma long_extension_panics:
  "sanitize L now (''a.'' @ replicate 221 CHR ''x'') = Inl SliceBoundsOutOfRange"
proof -
  have "limitLength (replaceAndTrim (''a.'' @ replicate 221 CHR ''x'')) = Inl SliceBoundsOutOfRange"
    by code_simp
  then show ?thesis by (simp add: sanitize_def)
qed

lemma long_extension_event_panics:
  "processEvent L m st
     (deletion ID (sampleMessage [DocumentAttributeFilename (''a.'' @ replicate 221 CHR ''x'')]))
   = Inl SliceBoundsOutOfRange"
proof -
  let ?msg = "sampleMessage [DocumentAttributeFilename (''a.'' @ replicate 221 CHR ''x'')]"
  have "filenameFromDocument L now
          (sampleDocument [DocumentAttributeFilename (''a.'' @ replicate 221 CHR ''x'')])
        = Inl SliceBoundsOutOfRange" for now
    using long_extension_panics [of L now]
    by (simp add: filenameFromDocument_def sampleDocument_def)
  then have "inputLocation L now ?msg = Inl SliceBoundsOutOfRange" for now
    by (simp add: inputLocation_def sampleMessage_def)
  then have "saveMedia L m w ?msg = Inl SliceBoundsOutOfRange" for w
    by (simp add: saveMedia_def)
  then show ?thesis
    by (simp add: processEvent_def deletion_def Let_def sampleMessage_def)
qed

lemma sample_located:
  "inputLocation L now (sampleMessage []) =
     Inr (Inr (InputDocumentFileLocation 5 1 ''r'' [], ''5.plain''))"
  by code_simp

lemma sample_event_returns:
  "\<exists>st1. processEvent L m st (deletion ID (sampleMessage [])) = Inr st1"
proof (cases "processEvent L m st (deletion ID (sampleMessage []))")
  case (Inl p)
  then have "locatorPanics L m (deletion ID (sampleMessage []))" by (rule processEvent_panics)
  then show ?thesis by (simp add: locatorPanics_def deletion_def sample_located)
next
  case (Inr st1)
  then show ?thesis by blast
qed

text \<open>A page that contains the event is never processed to its end, wherever the event
  stands in the page.\<close>

lemma processEvents_long_extension:
  "isl (processEvents L M st
     (pre @ deletion ID (sampleMessage [DocumentAttributeFilename (''a.'' @ replicate 221 CHR ''x'')])
        # evs))"
proof (induction pre arbitrary: M st)
  case Nil
  show ?case
    by (simp only: append_Nil processEvents.simps long_extension_event_panics sum.case sum.disc)
next
  case (Cons ev pre)
  show ?case
  proof (cases "processEvent L (M 0) st ev")
    case (Inl p)
    then show ?thesis by (simp only: append_Cons processEvents.simps sum.case sum.disc)
  next
    case (Inr st1)
    with Cons.IH [of "\<lambda>i. M (Suc i)" st1] show ?thesis
      by (simp only: append_Cons processEvents.simps sum.case)
  qed
qed

lemma processPage_long_extension:
  "isl (processPage L M st
     (pre @ deletion ID (sampleMessage [DocumentAttributeFilename (''a.'' @ replicate 221 CHR ''x'')])
        # evs))"
proof -
  let ?evs = "pre @ deletion ID
     (sampleMessage [DocumentAttributeFilename (''a.'' @ replicate 221 CHR ''x'')]) # evs"
  obtain p where "processEvents L M (st\<lparr>foundDeletedMedia := False\<rparr>) ?evs = Inl p"
    using processEvents_long_extension [of L M "st\<lparr>foundDeletedMedia := False\<rparr>" pre ID evs]
    by (auto simp only: isl_def)
  then show ?thesis by (simp only: processPage_def sum.case sum.disc)
qed

text \<open>
  \<^bold>\<open>C5\<close> says that no message's extraction failure aborts the scan. The code does not
  keep to it: a deleted message whose document is named \<open>a.\<close> followed by 221 letters
  makes \<open>sanitize\<close> slice with a negative bound, and the panic ends the page, whatever
  events follow and whatever the outside world does.
\<close>

theorem scan_aborts_on_long_extension:
  "processPage L M st
     (deletion 10 (sampleMessage [DocumentAttributeFilename (''a.'' @ replicate 221 CHR ''x'')])
      # evs)
   = Inl SliceBoundsOutOfRange"
proof -
  let ?msg = "sampleMessage [DocumentAttributeFilename (''a.'' @ replicate 221 CHR ''x'')]"
  have "filenameFromDocument L now
          (sampleDocument [DocumentAttributeFilename (''a.'' @ replicate 221 CHR ''x'')])
        = Inl SliceBoundsOutOfRange" for now
    using long_extension_panics [of L now]
    by (simp add: filenameFromDocument_def sampleDocument_def)
  then have "inputLocation L now ?msg = Inl SliceBoundsOutOfRange" for now
    by (simp add: inputLocation_def sampleMessage_def)
  then have "saveMedia L m w ?msg = Inl SliceBoundsOutOfRange" for m w
    by (simp add: saveMedia_def)
  then have "processEvent L m st' (deletion 10 ?msg) = Inl SliceBoundsOutOfRange" for m st'
    by (simp add: processEvent_def deletion_def Let_def sampleMessage_def)
  then show ?thesis
    by (simp add: processPage_def)
qed

text \<open>
  \<^bold>\<open>C3\<close> says that after every page the cursor \<open>maxID\<close> equals the ID of the last event
  of the page, whatever failed on the way. The code does not keep to it. Take the page of
  three deletions with the IDs 10, 9 and 8, the second of a message whose document is named
  \<open>a.\<close> followed by 221 letters. The first event is processed, the locator panics on the
  second, the third is never reached, and the program ends: whatever the starting state and
  the outside world, there is no state after the page, and no cursor equal to 8.
\<close>

theorem cursor_lost_on_long_extension:
  "processPage L M st
     [deletion 10 (sampleMessage []),
      deletion 9 (sampleMessage [DocumentAttributeFilename (''a.'' @ replicate 221 CHR ''x'')]),
      deletion 8 (sampleMessage [])]
   = Inl SliceBoundsOutOfRange
   \<and> ev_ID (last
       [deletion 10 (sampleMessage []),
        deletion 9 (sampleMessage [DocumentAttributeFilename (''a.'' @ replicate 221 CHR ''x'')]),
        deletion 8 (sampleMessage [])]) = 8"
proof -
  obtain st1 where 1: "processEvent L (M 0) (st\<lparr>foundDeletedMedia := False\<rparr>)
      (deletion 10 (sampleMessage [])) = Inr st1"
    using sample_event_returns by blast
  have "processEvents L M (st\<lparr>foundDeletedMedia := False\<rparr>)
     [deletion 10 (sampleMessage []),
      deletion 9 (sampleMessage [DocumentAttributeFilename (''a.'' @ replicate 221 CHR ''x'')]),
      deletion 8 (sampleMessage [])]
   = Inl SliceBoundsOutOfRange"
    by (simp only: processEvents.simps 1 sum.case long_extension_event_panics)
  then have "processPage L M st
     [deletion 10 (sampleMessage []),
      deletion 9 (sampleMessage [DocumentAttributeFilename (''a.'' @ replicate 221 CHR ''x'')]),
      deletion 8 (sampleMessage [])]
   = Inl SliceBoundsOutOfRange"
    by (simp only: processPage_def sum.case)
  moreover have "ev_ID (deletion 8 (sampleMessage [])) = 8" by (simp add: deletion_def)
  ultimately show ?thesis by (simp only: last.simps list.distinct if_False if_True simp_thms)
qed

section \<open>Existing files and failed fetches\<close>

lemma MkdirAll_existing: "fs path = Some Dir \<Longrightarrow> MkdirAll fs path = Some fs"
  by (simp add: MkdirAll.simps [of fs path])

lemma files_logMsg [simp]: "files (logMsg lvl text w) = files w"
  by (simp add: logMsg_def)

lemma fetched_logMsg [simp]: "fetched (logMsg lvl text w) = fetched w"
  by (simp add: logMsg_def)

lemma log_logMsg [simp]: "log (logMsg lvl text w) = log w @ [(lvl, text)]"
  by (simp add: logMsg_def)

text \<open>\<open>saveMedia\<close> once the locator has answered and both directories are there.\<close>

lemma saveMedia_located:
  assumes loc: "inputLocation L (UnixNano m) msg = Inr (Inr (loc, filename))"
    and d1: "MkdirAll (files w) mediaDir = Some fs1"
    and d2: "MkdirAll fs1 (Join [mediaDir, fst (subDirName msg)]) = Some fs2"
  shows "saveMedia L m w msg =
     (let w1 = (if snd (subDirName msg)
                then logMsg Warn ''Could not determine sender/peer ID for subdirectory''
                       (w\<lparr>files := fs1\<rparr>)
                else w\<lparr>files := fs1\<rparr>) \<lparr>files := fs2\<rparr>;
          dest = destinationPath L (UnixNano m) msg filename
      in
        if fs2 dest \<noteq> None
        then Inr (None, logMsg Info ''File already exists, skipping download.'' w1)
        else
          let w2 = (logMsg Info ''Attempting to download media'' w1)
                     \<lparr>fetched := fetched w1 @ [(loc, dest)]\<rparr>
          in case fetch m loc of
               Fetched content \<Rightarrow>
                 Inr (None, logMsg Info ''Download successful''
                              (w2\<lparr>files := fs2(dest \<mapsto> File content)\<rparr>))
             | FetchFailed written \<Rightarrow>
                 Inr (Some ErrDownloadFailed, w2\<lparr>files := fs2(dest := None)\<rparr>))"
proof -
  have ne: "filename \<noteq> []" using loc by (rule inputLocation_filename_nonempty)
  have d1': "MkdirAll (files w) ''media_backup'' = Some fs1" using d1 by (simp add: mediaDir_def)
  show ?thesis
  proof (cases "snd (subDirName msg)")
    case True
    show ?thesis
      unfolding saveMedia_def
      apply (simp only: loc sum.case prod.case d1 option.case)
      apply (simp only: Let_def ne if_False True if_True)
      apply (simp add: d2 destPath_nonempty effectiveFilename_def ne Let_def True
          split: fetch_result.splits option.splits)
      done
  next
    case False
    show ?thesis
      unfolding saveMedia_def
      apply (simp only: loc sum.case prod.case d1 option.case)
      apply (simp only: Let_def ne if_False False if_True)
      apply (simp add: d2 destPath_nonempty effectiveFilename_def ne Let_def False
          split: fetch_result.splits option.splits)
      done
  qed
qed

text \<open>
  \<^bold>\<open>C8\<close>. Take a message for which the locator returns a location and a filename, in a
  world where the backup directory and the sender's subdirectory exist and a regular file
  is at the destination path. Then \<open>saveMedia\<close> returns nil, its last log line says that
  the file exists and the download is skipped, the fetch primitive is not invoked, and the
  files (the existing one among them) are left as they were.
\<close>

theorem existing_file_skipped:
  assumes "inputLocation L (UnixNano m) msg = Inr (Inr (loc, filename))"
    and "files w mediaDir = Some Dir"
    and "files w (Join [mediaDir, fst (subDirName msg)]) = Some Dir"
    and "files w (destinationPath L (UnixNano m) msg filename) = Some (File content)"
  shows "\<exists>w'. saveMedia L m w msg = Inr (None, w') \<and> files w' = files w
            \<and> fetched w' = fetched w
            \<and> last (log w') = (Info, ''File already exists, skipping download.'')"
proof -
  have d1: "MkdirAll (files w) mediaDir = Some (files w)"
    using assms(2) by (rule MkdirAll_existing)
  have d2: "MkdirAll (files w) (Join [mediaDir, fst (subDirName msg)]) = Some (files w)"
    using assms(3) by (rule MkdirAll_existing)
  show ?thesis
    by (simp add: saveMedia_located [OF assms(1) d1 d2] assms(4) Let_def)
qed

text \<open>
  The theorem at the sample message, in the world where its document has been saved.
\<close>

theorem existing_file_skipped_witness:
  "files savedWorld (destinationPath asciiUTC (UnixNano fetchWorks) (sampleMessage []) ''5.plain'')
     = Some (File ''data'')
   \<and> (\<exists>w'. saveMedia asciiUTC fetchWorks savedWorld (sampleMessage []) = Inr (None, w')
            \<and> files w' = files savedWorld \<and> fetched w' = fetched savedWorld
            \<and> last (log w') = (Info, ''File already exists, skipping download.''))"
proof -
  have 1: "inputLocation asciiUTC (UnixNano fetchWorks) (sampleMessage []) =
     Inr (Inr (InputDocumentFileLocation 5 1 ''r'' [], ''5.plain''))"
    by code_simp
  have 2: "files savedWorld mediaDir = Some Dir" by code_simp
  have 3: "files savedWorld (Join [mediaDir, fst (subDirName (sampleMessage []))]) = Some Dir"
    by code_simp
  have 4: "files savedWorld (destinationPath asciiUTC (UnixNano fetchWorks) (sampleMessage []) ''5.plain'')
     = Some (File ''data'')"
    by code_simp
  from existing_file_skipped [OF 1 2 3 4] 4 show ?thesis by (rule_tac conjI)
qed



section \<open>The photo size selection\<close>

lemma max_int_max: "max_int a b = max a b"
  by (simp add: max_int_def max_def)

lemma candidates_simps:
  "candidates [] = []"
  "candidates (PhotoSize t w h # sizes) = (t, max w h) # candidates sizes"
  "candidates (PhotoSizeProgressive t w h # sizes) = (t, max w h) # candidates sizes"
  "candidates (PhotoCachedSize t w h # sizes) = candidates sizes"
  "candidates (PhotoStrippedSize t # sizes) = candidates sizes"
  "candidates (PhotoSizeEmpty t # sizes) = candidates sizes"
  "candidates (PhotoPathSize t # sizes) = candidates sizes"
  by (simp_all add: candidates_def resolvable_def map_filter_simps)

lemma selected_take:
  assumes "selected cs (Some x) t d r" and "ld < d"
  shows "selected ((t, d) # cs) b bt ld r"
proof -
  from assms(1) have le: "d \<le> snd (snd r)" and all: "\<forall>c\<in>set cs. snd c \<le> snd (snd r)"
    by (simp_all add: selected_def)
  from assms(1) consider (same) "r = (Some x, t, d)"
    | (later) pre post where "fst r \<noteq> None" "d < snd (snd r)" "cs = pre @ snd r # post"
        "\<forall>c\<in>set pre. snd c < snd (snd r)"
    unfolding selected_def by blast
  then have "fst r \<noteq> None \<and> (\<exists>pre post. (t, d) # cs = pre @ snd r # post
      \<and> (\<forall>c\<in>set pre. snd c < snd (snd r)))"
  proof cases
    case same
    then have "(t, d) # cs = [] @ snd r # cs" "\<forall>c\<in>set []. snd c < snd (snd r)" by simp_all
    with same show ?thesis by (metis fst_conv option.distinct(1))
  next
    case later
    then have "(t, d) # cs = ((t, d) # pre) @ snd r # post"
      "\<forall>c\<in>set ((t, d) # pre). snd c < snd (snd r)" by simp_all
    with later(1) show ?thesis by blast
  qed
  with le all assms(2) show ?thesis
    unfolding selected_def by auto
qed

lemma selected_skip:
  assumes "selected cs b bt ld r" and "d \<le> ld"
  shows "selected ((t, d) # cs) b bt ld r"
proof -
  from assms(1) have le: "ld \<le> snd (snd r)" and all: "\<forall>c\<in>set cs. snd c \<le> snd (snd r)"
    by (simp_all add: selected_def)
  from assms(1) consider (same) "r = (b, bt, ld)"
    | (later) pre post where "fst r \<noteq> None" "ld < snd (snd r)" "cs = pre @ snd r # post"
        "\<forall>c\<in>set pre. snd c < snd (snd r)"
    unfolding selected_def by blast
  then show ?thesis
  proof cases
    case same
    with le all assms(2) show ?thesis unfolding selected_def by auto
  next
    case later
    with assms(2) have "(t, d) # cs = ((t, d) # pre) @ snd r # post"
      "\<forall>c\<in>set ((t, d) # pre). snd c < snd (snd r)" by simp_all
    then have "\<exists>pre post. (t, d) # cs = pre @ snd r # post
      \<and> (\<forall>c\<in>set pre. snd c < snd (snd r))" by blast
    with later(1,2) le all assms(2) show ?thesis
      unfolding selected_def by auto
  qed
qed

lemma largestPhotoSize_selected:
  "selected (candidates sizes) b bt ld (largestPhotoSize sizes b bt ld)"
proof (induction sizes b bt ld rule: largestPhotoSize.induct)
  case (1 biggest biggestType largestDim)
  show ?case by (simp add: candidates_simps selected_def)
next
  case (2 Type W H sizes biggest biggestType largestDim)
  show ?case
  proof (cases "max W H > largestDim")
    case True
    with 2(1) have "selected (candidates sizes) (Some (Type, W, H)) Type (max W H)
        (largestPhotoSize sizes (Some (Type, W, H)) Type (max W H))"
      by (simp add: max_int_max)
    from selected_take [OF this True] True show ?thesis
      by (simp add: candidates_simps max_int_max)
  next
    case False
    then have le: "max W H \<le> largestDim" by linarith
    from False 2(2) have "selected (candidates sizes) biggest biggestType largestDim
        (largestPhotoSize sizes biggest biggestType largestDim)"
      by (simp add: max_int_max)
    from selected_skip [OF this le, of Type] False show ?thesis
      by (simp add: candidates_simps max_int_max)
  qed
next
  case (3 Type W H sizes biggest biggestType largestDim)
  show ?case
  proof (cases "max W H > largestDim")
    case True
    with 3(1) have "selected (candidates sizes) (Some (Type, W, H)) Type (max W H)
        (largestPhotoSize sizes (Some (Type, W, H)) Type (max W H))"
      by (simp add: max_int_max)
    from selected_take [OF this True] True show ?thesis
      by (simp add: candidates_simps max_int_max)
  next
    case False
    then have le: "max W H \<le> largestDim" by linarith
    from False 3(2) have "selected (candidates sizes) biggest biggestType largestDim
        (largestPhotoSize sizes biggest biggestType largestDim)"
      by (simp add: max_int_max)
    from selected_skip [OF this le, of Type] False show ?thesis
      by (simp add: candidates_simps max_int_max)
  qed
next
  case (4 Type W H sizes biggest biggestType largestDim)
  then show ?case by (simp add: candidates_simps)
next
  case (5 Type sizes biggest biggestType largestDim)
  then show ?case by (simp add: candidates_simps)
next
  case (6 Type sizes biggest biggestType largestDim)
  then show ?case by (simp add: candidates_simps)
next
  case (7 Type sizes biggest biggestType largestDim)
  then show ?case by (simp add: candidates_simps)
qed

lemma find_first:
  "P x \<Longrightarrow> \<forall>c\<in>set pre. \<not> P c \<Longrightarrow> find P (pre @ x # post) = Some x"
  by (induction pre) simp_all

lemma firstLargest_decomposed:
  assumes "cs = pre @ (t, d) # post" and "\<forall>c\<in>set pre. snd c < d" and "\<forall>c\<in>set cs. snd c \<le> d"
  shows "firstLargest cs = Some (t, d)"
proof -
  let ?P = "\<lambda>c. \<forall>c'\<in>set cs. snd c' \<le> snd c"
  have "?P (t, d)" using assms(3) by simp
  moreover have "\<forall>c\<in>set pre. \<not> ?P c"
  proof
    fix c assume "c \<in> set pre"
    with assms(2) have "snd c < d" by blast
    moreover have "(t, d) \<in> set cs" using assms(1) by simp
    ultimately show "\<not> ?P c" by force
  qed
  ultimately have "find ?P (pre @ (t, d) # post) = Some (t, d)" by (rule find_first)
  then show ?thesis by (simp add: firstLargest_def assms(1) [symmetric])
qed

lemma firstLargest_member: "firstLargest cs = Some c \<Longrightarrow> c \<in> set cs"
  unfolding firstLargest_def by (auto simp: find_Some_iff)

lemma largestPhotoSize_firstLargest:
  "(case largestPhotoSize sizes None [] 0 of
      (biggest, biggestType, largestDim) \<Rightarrow>
        if biggest = None \<or> biggestType = [] then Inl ErrNoSuitablePhotoSizes
        else photoLocation photo biggestType)
   = (case firstLargest (candidates sizes) of
        Some (tag, dim) \<Rightarrow>
          if 0 < dim \<and> tag \<noteq> [] then photoLocation photo tag
          else Inl ErrNoSuitablePhotoSizes
      | None \<Rightarrow> Inl ErrNoSuitablePhotoSizes)"
proof -
  obtain b' bt' ld' where r: "largestPhotoSize sizes None [] 0 = (b', bt', ld')"
    by (cases "largestPhotoSize sizes None [] 0") auto
  have sel: "selected (candidates sizes) None [] 0 (b', bt', ld')"
    using largestPhotoSize_selected [of sizes None "[]" 0] by (simp add: r)
  then have all: "\<forall>c\<in>set (candidates sizes). snd c \<le> ld'"
    by (simp add: selected_def)
  from sel consider (none) "(b', bt', ld') = (None, [], 0)"
    | (some) pre post where "b' \<noteq> None" "0 < ld'" "candidates sizes = pre @ (bt', ld') # post"
        "\<forall>c\<in>set pre. snd c < ld'"
    unfolding selected_def by auto
  then show ?thesis
  proof cases
    case none
    with all have le: "\<forall>c\<in>set (candidates sizes). snd c \<le> 0" by simp
    have "\<not> (0 < dim \<and> tag \<noteq> [])" if "firstLargest (candidates sizes) = Some (tag, dim)"
      for tag dim
      using firstLargest_member [OF that] le by force
    with none r show ?thesis by (auto split: option.splits)
  next
    case some
    from firstLargest_decomposed [OF some(3,4) all]
    have "firstLargest (candidates sizes) = Some (bt', ld')" .
    with some(1,2) r show ?thesis by auto
  qed
qed

text \<open>
  \<^bold>\<open>C4\<close> (as amended). For every non-empty photo the locator goes through all size
  variants, leaves out cached and stripped sizes (and every variant other than \<open>Size\<close>
  and \<open>ProgressiveSize\<close>), takes \<open>dim = max(width, height)\<close> of the others and selects the
  first entry of largest \<open>dim\<close>. It returns that entry's location with the filename
  \<open><photoID>_<sizeTag>.jpg\<close> if its \<open>dim\<close> is positive and its tag is not empty; in every
  other case (no resolvable size, none of positive dimension, an empty tag on the selected
  entry) it fails with the no-suitable-size error.
\<close>

theorem largest_photo_size_selected:
  assumes "msg_Media msg = Some (MessageMediaPhoto (Some (PhotoNotEmpty photo)))"
  shows "inputLocation L now msg = Inr (photoSelection photo)"
proof -
  have "inputLocation L now msg =
     Inr (case largestPhotoSize (photo_Sizes photo) None [] 0 of
            (biggest, biggestType, largestDim) \<Rightarrow>
              if biggest = None \<or> biggestType = [] then Inl ErrNoSuitablePhotoSizes
              else photoLocation photo biggestType)"
    using assms by (simp add: inputLocation_def photoLocation_def Let_def split: prod.splits)
  then show ?thesis
    by (simp only: largestPhotoSize_firstLargest photoSelection_def)
qed

text \<open>
  The theorem at a photo with sizes \<open>s\<close> (100), a cached size, \<open>m\<close> (300), a stripped size and a
  progressive \<open>y\<close> (300): the tie at 300 goes to \<open>m\<close>, seen first.
\<close>

theorem largest_photo_size_selected_witness:
  "inputLocation asciiUTC 0
     (photoMessage [PhotoSize ''s'' 100 50, PhotoCachedSize ''c'' 999 999, PhotoSize ''m'' 300 200,
                    PhotoStrippedSize ''i'', PhotoSizeProgressive ''y'' 10 300])
   = Inr (Inr (InputPhotoFileLocation 6 2 ''p'' ''m'', ''6_m.jpg''))"
proof -
  let ?sizes = "[PhotoSize ''s'' 100 50, PhotoCachedSize ''c'' 999 999, PhotoSize ''m'' 300 200,
                 PhotoStrippedSize ''i'', PhotoSizeProgressive ''y'' 10 300]"
  let ?photo = "\<lparr>photo_ID = 6, photo_AccessHash = 2, photo_FileReference = ''p'',
                 photo_Sizes = ?sizes\<rparr>"
  have h: "msg_Media (photoMessage ?sizes) = Some (MessageMediaPhoto (Some (PhotoNotEmpty ?photo)))"
    by (simp add: photoMessage_def)
  have e: "photoSelection ?photo = Inr (InputPhotoFileLocation 6 2 ''p'' ''m'', ''6_m.jpg'')"
    by code_simp
  from largest_photo_size_selected [OF h, of asciiUTC 0] e show ?thesis by simp
qed

text \<open>
  C4 as stated fails in two cases. A photo whose only size has width and height 0 has a
  resolvable size, yet the locator fails, because a size is selected only if its dimension
  exceeds the initial 0. And when the largest size has an empty tag the locator fails
  although it is the entry of largest dimension.
\<close>

theorem zero_size_counterexample:
  "claimedPhotoSelection \<lparr>photo_ID = 6, photo_AccessHash = 2, photo_FileReference = ''p'',
                          photo_Sizes = [PhotoSize ''x'' 0 0]\<rparr>
     = Inr (InputPhotoFileLocation 6 2 ''p'' ''x'', ''6_x.jpg'')
   \<and> inputLocation asciiUTC 0 (photoMessage [PhotoSize ''x'' 0 0]) = Inr (Inl ErrNoSuitablePhotoSizes)
   \<and> claimedPhotoSelection \<lparr>photo_ID = 6, photo_AccessHash = 2, photo_FileReference = ''p'',
                            photo_Sizes = [PhotoSize [] 800 600, PhotoSize ''m'' 320 240]\<rparr>
     = Inr (InputPhotoFileLocation 6 2 ''p'' [], ''6_.jpg'')
   \<and> inputLocation asciiUTC 0 (photoMessage [PhotoSize [] 800 600, PhotoSize ''m'' 320 240])
     = Inr (Inl ErrNoSuitablePhotoSizes)"
  by code_simp

section \<open>The document filename\<close>

lemma filenameAttribute_explicitName: "filenameAttribute attrs = explicitName attrs"
proof (induction attrs)
  case Nil
  show ?case by (simp add: explicitName_def)
next
  case (Cons a attrs)
  show ?case
  proof (cases a)
    case (DocumentAttributeFilename FileName)
    with Cons show ?thesis
      by (cases "FileName = []") (simp_all add: explicitName_def isNamed_def)
  next
    case DocumentAttributeOther
    with Cons show ?thesis by (simp add: explicitName_def isNamed_def)
  qed
qed

lemma Split_nonempty: "Split s c \<noteq> []"
  by (induction s) (auto split: list.splits)

lemma length_Split: "length (Split s c) = Suc (count_list s c)"
proof (induction s)
  case Nil
  show ?case by simp
next
  case (Cons x s)
  obtain p ps where "Split s c = p # ps"
    using Split_nonempty [of s c] by (cases "Split s c") auto
  with Cons show ?case by auto
qed

lemma Split_second:
  "count_list s c = 1 \<Longrightarrow> Split s c ! 1 = tl (dropWhile (\<lambda>x. x \<noteq> c) s)"
proof (induction s)
  case Nil
  then show ?case by simp
next
  case (Cons x s)
  show ?case
  proof (cases "x = c")
    case True
    with Cons.prems have "count_list s c = 0" by simp
    then have "length (Split s c) = 1" by (simp add: length_Split)
    then obtain p where "Split s c = [p]"
      by (cases "Split s c") auto
    moreover from \<open>count_list s c = 0\<close> have "c \<notin> set s"
      by (simp add: count_list_0_iff)
    then have "Split s c = [s]"
      by (induction s) (auto split: list.splits)
    ultimately show ?thesis using True by simp
  next
    case False
    with Cons.prems have "count_list s c = 1" by simp
    from Cons.IH [OF this] have ih: "Split s c ! 1 = tl (dropWhile (\<lambda>x. x \<noteq> c) s)" .
    obtain p ps where ps: "Split s c = p # ps"
      using Split_nonempty [of s c] by (cases "Split s c") auto
    with ih False show ?thesis by simp
  qed
qed

lemma Index_takeWhile:
  "(case Index s c of Some idx \<Rightarrow> take idx s | None \<Rightarrow> s) = takeWhile (\<lambda>x. x \<noteq> c) s"
  by (induction s) (auto split: option.splits)

lemma mimeExtension_subtypeExtension: "mimeExtension L MimeType = subtypeExtension L MimeType"
proof (cases "count_list MimeType CHR ''/'' = 1")
  case True
  then have len: "length (Split MimeType CHR ''/'') = 2" by (simp add: length_Split)
  let ?sub = "tl (dropWhile (\<lambda>c. c \<noteq> CHR ''/'') MimeType)"
  have snd: "Split MimeType CHR ''/'' ! 1 = ?sub" using True by (rule Split_second)
  let ?clean = "TrimSpace (takeWhile (\<lambda>c. c \<noteq> CHR '';'') (ToLower L ?sub))"
  show ?thesis
  proof (cases "?sub = []")
    case True
    then have "isASCII ?sub" by (simp add: isASCII_def)
    with True have "ToLower L ?sub = []" by (simp add: ToLower_def)
    then have "?clean = []" by (simp add: TrimSpace_def TrimRightSpace_def lastIndexNotSpace.simps)
    with True len snd \<open>count_list MimeType CHR ''/'' = 1\<close> show ?thesis
      by (simp add: mimeExtension_def subtypeExtension_def Let_def)
  next
    case False
    with len snd \<open>count_list MimeType CHR ''/'' = 1\<close> show ?thesis
      unfolding mimeExtension_def subtypeExtension_def Let_def Index_takeWhile pathHostile_def
      by (auto simp: Suc_le_eq)
  qed
next
  case False
  then have "length (Split MimeType CHR ''/'') \<noteq> 2" by (simp add: length_Split)
  with False show ?thesis
    by (simp add: mimeExtension_def subtypeExtension_def Let_def)
qed

text \<open>
  \<^bold>\<open>C7\<close> (as amended). For every non-empty document the filename is resolved in this
  order: (1) the first filename attribute with a non-empty name, sanitized; (2) otherwise
  the sanitized form of \<open><documentID>.<ext>\<close>, where \<open>ext\<close> is taken from a MIME type with
  exactly one slash: its subtype lower-cased, cut at the first semicolon and trimmed of
  white space, accepted if it is 1 to 9 bytes long and has none of the characters
  \<open>/ \ : * ? " < > |\<close> and space, and \<open>bin\<close> in every other case.
\<close>

theorem document_filename_resolution:
  "filenameFromDocument L now doc = resolvedFilename L now doc"
  by (simp add: filenameFromDocument_def resolvedFilename_def Let_def
      filenameAttribute_explicitName mimeExtension_subtypeExtension split: option.splits)

text \<open>
  The theorem at the sample document (MIME type \<open>text/plain; charset=utf-8\<close>, no filename
  attribute) and at a document whose first filename attribute is empty.
\<close>

theorem document_filename_resolution_witness:
  "filenameFromDocument asciiUTC 0 (sampleDocument []) = Inr ''5.plain''
   \<and> filenameFromDocument asciiUTC 0
        (sampleDocument [DocumentAttributeFilename [], DocumentAttributeFilename ''Road Map?.PDF''])
       = Inr ''Road Map_.PDF''"
proof -
  have "resolvedFilename asciiUTC 0 (sampleDocument []) = Inr ''5.plain''" by code_simp
  moreover have "resolvedFilename asciiUTC 0
        (sampleDocument [DocumentAttributeFilename [], DocumentAttributeFilename ''Road Map?.PDF''])
       = Inr ''Road Map_.PDF''" by code_simp
  ultimately show ?thesis by (simp add: document_filename_resolution)
qed

text \<open>
  C7 as stated fails in three ways: the synthesized name is sanitized too, so the MIME type
  \<open>x/a.\<close> gives \<open>5.a\<close>, not \<open>5.a.\<close>; the subtype is trimmed, so \<open>text/plain ; charset=utf-8\<close>
  gives \<open>5.plain\<close>, not \<open>5.bin\<close>; and a second slash anywhere, as in \<open>a/b;x=/c\<close>, gives
  \<open>5.bin\<close>, not \<open>5.b\<close>.
\<close>

theorem synthesized_name_counterexample:
  "filenameFromDocument asciiUTC 0 ((sampleDocument []) \<lparr>doc_MimeType := ''x/a.''\<rparr>) = Inr ''5.a''
   \<and> claimedFilename asciiUTC 0 ((sampleDocument []) \<lparr>doc_MimeType := ''x/a.''\<rparr>) = Inr ''5.a.''
   \<and> filenameFromDocument asciiUTC 0 ((sampleDocument []) \<lparr>doc_MimeType := ''text/plain ; charset=utf-8''\<rparr>)
       = Inr ''5.plain''
   \<and> claimedFilename asciiUTC 0 ((sampleDocument []) \<lparr>doc_MimeType := ''text/plain ; charset=utf-8''\<rparr>)
       = Inr ''5.bin''
   \<and> filenameFromDocument asciiUTC 0 ((sampleDocument []) \<lparr>doc_MimeType := ''a/b;x=/c''\<rparr>) = Inr ''5.bin''
   \<and> claimedFilename asciiUTC 0 ((sampleDocument []) \<lparr>doc_MimeType := ''a/b;x=/c''\<rparr>) = Inr ''5.b''"
  by code_simp

end
